theory Spec2Isabelle
  imports Complex_Main "HOL-Library.Multiset" "HOL-Library.Sublist"
begin

section \<open>Strings\<close>

text \<open>
  Python strings are sequences of code points; the model uses \<open>string\<close> (a list of
  8-bit characters), so a character stands for a code point below 256.
\<close>

definition is_space :: "char \<Rightarrow> bool" where
  \<comment> \<open>\<open>str.isspace\<close> on the code points below 256\<close>
  "is_space c = ((of_char c :: nat) \<in> {9, 10, 11, 12, 13, 28, 29, 30, 31, 32, 133, 160})"

definition strip :: "string \<Rightarrow> string" where
  \<comment> \<open>\<open>str.strip()\<close>: leading and trailing whitespace removed\<close>
  "strip s = rev (dropWhile is_space (rev (dropWhile is_space s)))"

definition is_delim :: "char \<Rightarrow> bool" where
  \<comment> \<open>the character class \<open>[.!?]\<close>\<close>
  "is_delim c = (c = CHR ''.'' \<or> c = CHR ''!'' \<or> c = CHR ''?'')"

text \<open>
  \<open>re.split(r'[.!?]+', text)\<close>: the text is cut at every maximal run of delimiters;
  the pieces between the runs are returned, the empty ones at both ends included.
\<close>

function re_split :: "string \<Rightarrow> string list" where
  "re_split [] = [[]]"
| "re_split (c # cs) =
     (if is_delim c then [] # re_split (dropWhile is_delim cs)
      else (case re_split cs of
              [] \<Rightarrow> [[c]]
            | f # fs \<Rightarrow> (c # f) # fs))"
  by pat_completeness auto
termination
  by (relation "measure length") (auto simp: length_dropWhile_le less_Suc_eq_le)

fun join_space :: "string list \<Rightarrow> string" where
  \<comment> \<open>\<open>" ".join(xs)\<close>\<close>
  "join_space [] = []"
| "join_space [s] = s"
| "join_space (s # t # ss) = s @ '' '' @ join_space (t # ss)"

fun digit_char :: "nat \<Rightarrow> char" where
  "digit_char n = char_of (48 + n)"

fun show_nat :: "nat \<Rightarrow> string" where
  \<comment> \<open>\<open>str(n)\<close> for a non-negative integer\<close>
  "show_nat n = (if n < 10 then [digit_char n] else show_nat (n div 10) @ [digit_char (n mod 10)])"

declare show_nat.simps [simp del]

section \<open>Segmenter (\<open>document_processor.py\<close>)\<close>

subsection \<open>\<open>_split_into_sentences\<close>\<close>

fun clean_sentences :: "string list \<Rightarrow> string list" where
  \<comment> \<open>the loop over the fragments: trim each, keep it when \<open>sentence and len(sentence) > 10\<close>\<close>
  "clean_sentences [] = []"
| "clean_sentences (s # ss) =
     (let sentence = strip s in
      if sentence \<noteq> [] \<and> length sentence > 10 then sentence # clean_sentences ss
      else clean_sentences ss)"

definition split_into_sentences :: "string \<Rightarrow> string list" where
  "split_into_sentences text = clean_sentences (re_split text)"

subsection \<open>\<open>chunk_text\<close>\<close>

record settings =
  chunk_size :: int
  chunk_overlap :: int

definition default_settings :: settings where
  \<comment> \<open>the defaults of \<open>config.py\<close>\<close>
  "default_settings = \<lparr>chunk_size = 1000, chunk_overlap = 100\<rparr>"

text \<open>A page is the dictionary \<open>{"page_number": n, "text": t}\<close>.\<close>

type_synonym page = "int \<times> string"

record chunk =
  chunk_id :: string
  chunk_index :: nat
  content :: string
  page_number :: int
  sentence_count :: nat

text \<open>
  The state of the loop over the sentences of one page. The list of saved chunks is
  polymorphic: the source appends the dictionary \<open>chunk_data\<close>, built by the function
  \<open>emit\<close> from the chunk index, the running text and the running sentence list.
\<close>

record 'c seg_state =
  st_chunks :: "'c list"
  st_chunk_index :: nat
  st_current_chunk :: string
  st_current_sentences :: "string list"

definition save_chunk :: "(nat \<Rightarrow> string \<Rightarrow> string list \<Rightarrow> 'c) \<Rightarrow> 'c seg_state \<Rightarrow> 'c seg_state" where
  \<comment> \<open>\<open>chunks.append(chunk_data); chunk_index += 1\<close>\<close>
  "save_chunk emit st =
     st\<lparr>st_chunks := st_chunks st @
            [emit (st_chunk_index st) (st_current_chunk st) (st_current_sentences st)],
        st_chunk_index := st_chunk_index st + 1\<rparr>"

definition save_if_content :: "(nat \<Rightarrow> string \<Rightarrow> string list \<Rightarrow> 'c) \<Rightarrow> 'c seg_state \<Rightarrow> 'c seg_state" where
  \<comment> \<open>\<open>if current_chunk.strip(): ...\<close>\<close>
  "save_if_content emit st = (if strip (st_current_chunk st) \<noteq> [] then save_chunk emit st else st)"

definition overlap_window :: "int \<Rightarrow> string list \<Rightarrow> string list" where
  \<comment> \<open>\<open>current_sentences[-overlap_count:] if len(current_sentences) > overlap_count
      else current_sentences\<close>, with \<open>overlap_count = max(1, chunk_overlap // 100)\<close>\<close>
  "overlap_window coverlap sents =
     (let overlap_count = max 1 (coverlap div 100) in
      if int (length sents) > overlap_count
      then drop (length sents - nat overlap_count) sents
      else sents)"

definition start_new_chunk :: "int \<Rightarrow> 'c seg_state \<Rightarrow> 'c seg_state" where
  \<comment> \<open>"Start new chunk with overlap"\<close>
  "start_new_chunk coverlap st =
     (if coverlap > 0 \<and> st_current_sentences st \<noteq> [] then
        (let overlap_sentences = overlap_window coverlap (st_current_sentences st) in
         st\<lparr>st_current_chunk := join_space overlap_sentences,
            st_current_sentences := overlap_sentences\<rparr>)
      else st\<lparr>st_current_chunk := [], st_current_sentences := []\<rparr>)"

definition add_sentence :: "string \<Rightarrow> 'c seg_state \<Rightarrow> 'c seg_state" where
  \<comment> \<open>\<open>current_chunk += (" " + sentence) if current_chunk else sentence;
      current_sentences.append(sentence)\<close>\<close>
  "add_sentence sentence st =
     st\<lparr>st_current_chunk :=
          (if st_current_chunk st \<noteq> [] then st_current_chunk st @ '' '' @ sentence else sentence),
        st_current_sentences := st_current_sentences st @ [sentence]\<rparr>"

definition chunk_step ::
  "(nat \<Rightarrow> string \<Rightarrow> string list \<Rightarrow> 'c) \<Rightarrow> int \<Rightarrow> int \<Rightarrow> 'c seg_state \<Rightarrow> string \<Rightarrow> 'c seg_state" where
  \<comment> \<open>the body of \<open>for sentence in sentences\<close>\<close>
  "chunk_step emit csize coverlap st sentence =
     (let proposed_chunk_len = int (length (st_current_chunk st @ '' '' @ sentence)) in
      if proposed_chunk_len \<le> csize then add_sentence sentence st
      else add_sentence sentence (start_new_chunk coverlap (save_if_content emit st)))"

definition chunk_page ::
  "(int \<Rightarrow> nat \<Rightarrow> string \<Rightarrow> string list \<Rightarrow> 'c) \<Rightarrow> int \<Rightarrow> int \<Rightarrow> 'c list \<times> nat \<Rightarrow> page \<Rightarrow> 'c list \<times> nat" where
  \<comment> \<open>the body of \<open>for page in pages\<close>; the pair is \<open>(chunks, chunk_index)\<close>\<close>
  "chunk_page emit csize coverlap acc pg =
     (let page_number = fst pg;
          sentences = split_into_sentences (snd pg);
          st = foldl (chunk_step (emit page_number) csize coverlap)
                 \<lparr>st_chunks = fst acc, st_chunk_index = snd acc,
                  st_current_chunk = [], st_current_sentences = []\<rparr> sentences;
          st' = save_if_content (emit page_number) st
      in (st_chunks st', st_chunk_index st'))"

definition chunk_pages ::
  "(int \<Rightarrow> nat \<Rightarrow> string \<Rightarrow> string list \<Rightarrow> 'c) \<Rightarrow> int \<Rightarrow> int \<Rightarrow> page list \<Rightarrow> 'c list" where
  "chunk_pages emit csize coverlap pages = fst (foldl (chunk_page emit csize coverlap) ([], 0) pages)"

text \<open>
  \<open>chunk_data\<close>: the dictionary appended for a saved chunk. The identifier ends in
  \<open>uuid.uuid4().hex[:8]\<close>, eight hexadecimal digits drawn at random; one draw is made per
  saved chunk, so the draws are given as a function of the chunk index.
\<close>

definition chunk_data :: "(nat \<Rightarrow> string) \<Rightarrow> int \<Rightarrow> nat \<Rightarrow> string \<Rightarrow> string list \<Rightarrow> chunk" where
  "chunk_data uuid_hex8 pn idx current_chunk current_sentences =
     \<lparr>chunk_id = ''chunk_'' @ show_nat idx @ ''_'' @ uuid_hex8 idx,
      chunk_index = idx,
      content = strip current_chunk,
      page_number = pn,
      sentence_count = length current_sentences\<rparr>"

definition chunk_text ::
  "settings \<Rightarrow> (nat \<Rightarrow> string) \<Rightarrow> page list \<Rightarrow> int option \<Rightarrow> int option \<Rightarrow> chunk list" where
  "chunk_text cfg uuid_hex8 pages csize coverlap =
     chunk_pages (chunk_data uuid_hex8)
       (case csize of None \<Rightarrow> chunk_size cfg | Some n \<Rightarrow> n)
       (case coverlap of None \<Rightarrow> chunk_overlap cfg | Some n \<Rightarrow> n)
       pages"

text \<open>
  The sentence lists behind the saved chunks: the same loop, recording
  \<open>current_sentences\<close> where the source records \<open>chunk_data\<close>.
\<close>

definition chunk_sentences :: "int \<Rightarrow> int \<Rightarrow> page list \<Rightarrow> string list list" where
  "chunk_sentences csize coverlap pages = chunk_pages (\<lambda>pn idx cur sents. sents) csize coverlap pages"


section \<open>Exceptions\<close>

text \<open>
  A Python exception is a value carrying its message; a computation that can raise returns
  \<open>error + 'a\<close>, with \<open>Inl\<close> for the exception. Every handler of the source is
  \<open>except Exception\<close> (or a bare \<open>except\<close>) and catches all of them.
\<close>

datatype error = Exception string

fun str_error :: "error \<Rightarrow> string" where
  "str_error (Exception msg) = msg"

definition try_except :: "error + 'a \<Rightarrow> (error \<Rightarrow> error + 'a) \<Rightarrow> error + 'a" where
  \<comment> \<open>\<open>try: body  except Exception as e: handler(e)\<close>\<close>
  "try_except body handler = (case body of Inl e \<Rightarrow> handler e | Inr v \<Rightarrow> Inr v)"

section \<open>Embedding service (\<open>embedding_service.py\<close>)\<close>

text \<open>
  An embedding is a list of floats; the model computes with real numbers, so rounding,
  infinities and NaN are outside it.
\<close>

type_synonym vector = "real list"

text \<open>
  The libraries are parameters: \<open>st_encode\<close> is \<open>SentenceTransformer.encode\<close> followed by
  \<open>tolist\<close>, \<open>tfidf_fit\<close> is \<open>TfidfVectorizer(max_features=384, stop_words='english',
  ngram_range=(1, 2)).fit\<close> and yields the fitted state, \<open>tfidf_transform\<close> is
  \<open>transform(...).toarray().tolist()\<close> on a fitted state. Each may raise. The last,
  \<open>list_of_set\<close>, is Python's \<open>list(s)\<close> for the set \<open>s\<close> built by adding the given words
  one after the other: Python does not specify the order of the result, and nothing is
  assumed of it.
\<close>

record ('m, 'v) libraries =
  st_encode :: "'m \<Rightarrow> string list \<Rightarrow> error + vector list"
  tfidf_fit :: "string list \<Rightarrow> error + 'v"
  tfidf_transform :: "'v \<Rightarrow> string list \<Rightarrow> error + vector list"
  list_of_set :: "string list \<Rightarrow> string list"

text \<open>
  A \<open>TfidfVectorizer\<close> object is either constructed and not fitted, or fitted. A call of
  \<open>fit\<close> that raises is taken to leave the object as it was.
\<close>

datatype 'v vectorizer = Unfitted | Fitted 'v

text \<open>The module's global variables.\<close>

record ('m, 'v) globals =
  sentence_transformer_model :: "'m option"
  tfidf_vectorizer :: "'v vectorizer option"

definition vectorizer_transform ::
  "('m, 'v) libraries \<Rightarrow> 'v vectorizer \<Rightarrow> string list \<Rightarrow> error + vector list" where
  "vectorizer_transform lib vz texts =
     (case vz of
        Unfitted \<Rightarrow> Inl (Exception ''NotFittedError'')
      | Fitted v \<Rightarrow> tfidf_transform lib v texts)"

definition transform_or_refit ::
  "('m, 'v) libraries \<Rightarrow> 'v vectorizer \<Rightarrow> ('m, 'v) globals \<Rightarrow> string list
     \<Rightarrow> (error + vector list) \<times> ('m, 'v) globals" where
  \<comment> \<open>the \<open>try\<close> block of \<open>_generate_tfidf_embeddings\<close>: transform, and on failure refit
      the same object and transform again\<close>
  "transform_or_refit lib vz g texts =
     (case vectorizer_transform lib vz texts of
        Inr result \<Rightarrow> (Inr result, g)
      | Inl e \<Rightarrow>
          (case tfidf_fit lib texts of
             Inl refit_error \<Rightarrow> (Inl refit_error, g)
           | Inr v \<Rightarrow> (tfidf_transform lib v texts, g\<lparr>tfidf_vectorizer := Some (Fitted v)\<rparr>)))"

definition generate_tfidf_embeddings ::
  "('m, 'v) libraries \<Rightarrow> ('m, 'v) globals \<Rightarrow> string list
     \<Rightarrow> (error + vector list) \<times> ('m, 'v) globals" where
  "generate_tfidf_embeddings lib g texts =
     (case tfidf_vectorizer g of
        None \<Rightarrow>
          (case tfidf_fit lib texts of
             Inl e \<Rightarrow> (Inl e, g\<lparr>tfidf_vectorizer := Some Unfitted\<rparr>)
           | Inr v \<Rightarrow>
               transform_or_refit lib (Fitted v) (g\<lparr>tfidf_vectorizer := Some (Fitted v)\<rparr>) texts)
      | Some vz \<Rightarrow> transform_or_refit lib vz g texts)"

definition lower_char :: "char \<Rightarrow> char" where
  \<comment> \<open>\<open>str.lower\<close> on the code points below 256\<close>
  "lower_char c =
     (let n = (of_char c :: nat) in
      if (65 \<le> n \<and> n \<le> 90) \<or> (192 \<le> n \<and> n \<le> 222 \<and> n \<noteq> 215) then char_of (n + 32) else c)"

function py_split :: "string \<Rightarrow> string list" where
  \<comment> \<open>\<open>str.split()\<close>: the maximal runs of characters that are not whitespace\<close>
  "py_split s =
     (let t = dropWhile is_space s in
      if t = [] then []
      else takeWhile (\<lambda>c. \<not> is_space c) t # py_split (dropWhile (\<lambda>c. \<not> is_space c) t))"
  by pat_completeness auto
termination
proof (relation "measure length")
  fix s t :: string
  assume t: "t = dropWhile is_space s" and ne: "t \<noteq> []"
  from ne t have "\<not> is_space (hd t)" using hd_dropWhile by blast
  with ne have "length (dropWhile (\<lambda>c. \<not> is_space c) t) < length t"
    by (cases t) (auto simp: less_Suc_eq_le length_dropWhile_le)
  also have "length t \<le> length s" using t by (simp add: length_dropWhile_le)
  finally show "(dropWhile (\<lambda>c. \<not> is_space c) t, s) \<in> measure length" by simp
qed simp

declare py_split.simps [simp del]

definition generate_basic_embeddings :: "('m, 'v) libraries \<Rightarrow> string list \<Rightarrow> vector list" where
  "generate_basic_embeddings lib texts =
     (let all_words = concat (map (\<lambda>text. py_split (map lower_char text)) texts);
          vocab = list_of_set lib all_words in
      map (\<lambda>text.
             let words = py_split (map lower_char text);
                 embedding = map (\<lambda>word. count_list words word) vocab;
                 total = (if sum_list embedding = 0 then 1 else sum_list embedding)
             in map (\<lambda>count. real count / real total) embedding)
          texts)"

definition generate_embeddings ::
  "('m, 'v) libraries \<Rightarrow> ('m, 'v) globals \<Rightarrow> string list \<Rightarrow> string
     \<Rightarrow> (error + vector list) \<times> ('m, 'v) globals" where
  "generate_embeddings lib g texts method =
     (if texts = [] then (Inr [], g)
      else
        let strategy1 =
              (if method \<in> {''auto'', ''sentence_transformer''} then
                 (case sentence_transformer_model g of
                    None \<Rightarrow> None
                  | Some model \<Rightarrow>
                      (case st_encode lib model texts of
                         Inl e \<Rightarrow> None
                       | Inr [] \<Rightarrow> None \<comment> \<open>\<open>result[0]\<close> raises inside the \<open>try\<close>\<close>
                       | Inr (v # vs) \<Rightarrow> Some (v # vs)))
               else None)
        in case strategy1 of
             Some result \<Rightarrow> (Inr result, g)
           | None \<Rightarrow>
               if method \<in> {''auto'', ''tfidf''} then
                 (case generate_tfidf_embeddings lib g texts of
                    (Inr result, g') \<Rightarrow> (Inr result, g')
                  | (Inl e, g') \<Rightarrow> (Inr (generate_basic_embeddings lib texts), g'))
               else (Inr (generate_basic_embeddings lib texts), g))"

section \<open>Stored records\<close>

text \<open>
  A row of the table \<open>document_embeddings\<close>; the serial key and the creation time are
  never read. A column that can hold \<open>NULL\<close> is an option.
\<close>

record embedding_row =
  documentId :: string
  chunkId :: string
  chunkIndex :: nat
  row_content :: string
  embedding :: "vector option"
  pageNumber :: "int option"

text \<open>
  What \<open>db_manager.get_connection()\<close> followed by a query delivers: the exception when
  either raises, the table in storage order otherwise.
\<close>

type_synonym connection = "error + embedding_row list"

definition generate_query_embedding ::
  "('m, 'v) libraries \<Rightarrow> error + string list \<Rightarrow> string \<Rightarrow> error + vector" where
  \<comment> \<open>\<open>fetched\<close> is what \<open>SELECT content FROM document_embeddings ORDER BY "chunkIndex"\<close>
      delivers on a connection: the exception, or the contents of all stored chunks\<close>
  "generate_query_embedding lib fetched query =
     try_except
       (case fetched of
          Inl e \<Rightarrow> Inl e
        | Inr chunks \<Rightarrow>
            if chunks = [] then Inr []
            else
              let chunk_texts = chunks;
                  all_texts = chunk_texts @ [query]
              in case tfidf_fit lib all_texts of
                   Inl e \<Rightarrow> Inl e
                 | Inr vectorizer \<Rightarrow>
                     (case tfidf_transform lib vectorizer [query] of
                        Inl e \<Rightarrow> Inl e
                      | Inr [] \<Rightarrow> Inl (Exception ''IndexError'')
                      | Inr (query_embedding # _) \<Rightarrow> Inr query_embedding))
       (\<lambda>e. Inr [])"

definition sk_cosine_similarity :: "vector \<Rightarrow> vector \<Rightarrow> error + real" where
  \<comment> \<open>\<open>sklearn.metrics.pairwise.cosine_similarity\<close> on two rows of equal length: an array
      with no feature is rejected, each row is divided by its norm (a zero norm by 1)\<close>
  "sk_cosine_similarity v1 v2 =
     (if length v1 = 0 then Inl (Exception ''ValueError'')
      else
        let norm = (\<lambda>v. let n = sqrt (\<Sum>x\<leftarrow>v. x * x) in if n = 0 then 1 else n)
        in Inr (\<Sum>(x, y)\<leftarrow>zip v1 v2. (x / norm v1) * (y / norm v2)))"

definition fallback_similarity :: "vector \<Rightarrow> vector \<Rightarrow> error + real" where
  \<comment> \<open>\<open>_fallback_similarity\<close>; the sums of absolute values of numbers cannot raise\<close>
  "fallback_similarity embedding1 embedding2 =
     try_except
       (let sum1 = (\<Sum>x\<leftarrow>embedding1. \<bar>x\<bar>);
            sum2 = (\<Sum>x\<leftarrow>embedding2. \<bar>x\<bar>)
        in if sum1 > 0 \<and> sum2 > 0 then Inr 0.1 else Inr 0.0)
       (\<lambda>e. Inr 0.05)"

definition cosine_similarity_score :: "vector \<Rightarrow> vector \<Rightarrow> error + real" where
  "cosine_similarity_score embedding1 embedding2 =
     try_except
       (if length embedding1 \<noteq> length embedding2
        then fallback_similarity embedding1 embedding2
        else sk_cosine_similarity embedding1 embedding2)
       (\<lambda>e. fallback_similarity embedding1 embedding2)"

section \<open>Vector search (\<open>vector_search.py\<close>)\<close>

record hit =
  hit_chunk_id :: string
  hit_content :: string
  hit_page_number :: "int option"
  hit_document_id :: string
  similarity :: real

definition score_row :: "vector \<Rightarrow> real \<Rightarrow> embedding_row \<Rightarrow> error + hit option" where
  \<comment> \<open>the \<open>try\<close> block of the loop over the rows; \<open>len(chunk_embedding)\<close> raises on
      \<open>None\<close>\<close>
  "score_row query_embedding similarity_threshold row =
     (case embedding row of
        None \<Rightarrow> Inl (Exception ''TypeError'')
      | Some chunk_embedding \<Rightarrow>
          (case cosine_similarity_score query_embedding chunk_embedding of
             Inl e \<Rightarrow> Inl e
           | Inr sim \<Rightarrow>
               if sim \<ge> similarity_threshold then
                 Inr (Some \<lparr>hit_chunk_id = chunkId row, hit_content = row_content row,
                            hit_page_number = pageNumber row, hit_document_id = documentId row,
                            similarity = sim\<rparr>)
               else Inr None))"

fun score_rows :: "vector \<Rightarrow> real \<Rightarrow> embedding_row list \<Rightarrow> hit list \<Rightarrow> hit list" where
  \<comment> \<open>\<open>for i, row in enumerate(rows)\<close>, with \<open>except Exception\<close> around the body\<close>
  "score_rows q thr [] results = results"
| "score_rows q thr (row # rows) results =
     score_rows q thr rows
       (case score_row q thr row of
          Inl chunk_error \<Rightarrow> results
        | Inr None \<Rightarrow> results
        | Inr (Some h) \<Rightarrow> results @ [h])"

definition sort_by_similarity :: "hit list \<Rightarrow> hit list" where
  \<comment> \<open>\<open>results.sort(key=lambda x: x['similarity'], reverse=True)\<close>: Python's sort is
      stable, also with \<open>reverse=True\<close>\<close>
  "sort_by_similarity results = sort_key (\<lambda>x. - similarity x) results"

definition slice_to :: "int \<Rightarrow> 'a list \<Rightarrow> 'a list" where
  \<comment> \<open>\<open>xs[:n]\<close>; a negative \<open>n\<close> counts from the end\<close>
  "slice_to n xs = (if 0 \<le> n then take (nat n) xs else take (length xs - nat (- n)) xs)"

definition select_rows :: "string list option \<Rightarrow> embedding_row list \<Rightarrow> embedding_row list" where
  \<comment> \<open>the \<open>WHERE "documentId" = ANY($1)\<close> clause, added only \<open>if document_ids\<close>\<close>
  "select_rows document_ids table =
     (case document_ids of
        None \<Rightarrow> table
      | Some ids \<Rightarrow> if ids \<noteq> [] then filter (\<lambda>row. documentId row \<in> set ids) table else table)"

definition search_similar_chunks ::
  "connection \<Rightarrow> vector \<Rightarrow> string list option \<Rightarrow> int \<Rightarrow> real \<Rightarrow> error + hit list" where
  "search_similar_chunks conn query_embedding document_ids limit similarity_threshold =
     try_except
       (case conn of
          Inl e \<Rightarrow> Inl e
        | Inr table \<Rightarrow>
            let rows = select_rows document_ids table in
            if length rows = 0 then Inr []
            else
              let results = score_rows query_embedding similarity_threshold rows [];
                  final_results = slice_to limit (sort_by_similarity results)
              in Inr final_results)
       (\<lambda>e. Inr [])"

definition upsert_row :: "string \<Rightarrow> embedding_row list \<Rightarrow> chunk \<times> vector \<Rightarrow> embedding_row list" where
  \<comment> \<open>\<open>INSERT ... ON CONFLICT ("chunkId") DO UPDATE SET content, embedding, "pageNumber"\<close>\<close>
  "upsert_row document_id table ce =
     (let c = fst ce; e = snd ce in
      if chunk_id c \<in> chunkId ` set table then
        map (\<lambda>row. if chunkId row = chunk_id c
                    then row\<lparr>row_content := content c, embedding := Some e,
                             pageNumber := Some (page_number c)\<rparr>
                    else row) table
      else table @ [\<lparr>documentId = document_id, chunkId = chunk_id c,
                     chunkIndex = chunk_index c, row_content = content c,
                     embedding = Some e, pageNumber = Some (page_number c)\<rparr>])"

definition store_embeddings_in_database ::
  "connection \<Rightarrow> string \<Rightarrow> chunk list \<Rightarrow> vector list \<Rightarrow> error + embedding_row list" where
  \<comment> \<open>returns the table after the loop; the statements themselves are taken to succeed\<close>
  "store_embeddings_in_database conn document_id chunks embeddings =
     (if length chunks \<noteq> length embeddings then
        Inl (Exception (''Number of chunks ('' @ show_nat (length chunks) @ '') and embeddings (''
                        @ show_nat (length embeddings) @ '') must match''))
      else case conn of
             Inl e \<Rightarrow> Inl e
           | Inr table \<Rightarrow> Inr (foldl (upsert_row document_id) table (zip chunks embeddings)))"

section \<open>Ingestion (\<open>process_document_file\<close>, \<open>process_document_background\<close>)\<close>

definition ingest ::
  "settings \<Rightarrow> ('m, 'v) libraries \<Rightarrow> (nat \<Rightarrow> string) \<Rightarrow> ('m, 'v) globals \<Rightarrow> connection
     \<Rightarrow> string \<Rightarrow> page list \<Rightarrow> (error + embedding_row list) \<times> ('m, 'v) globals" where
  \<comment> \<open>from the extracted pages on: chunking, embedding of the chunk contents, storage\<close>
  "ingest cfg lib uuid_hex8 g conn document_id pages =
     (if pages = [] then
        (Inl (Exception ''Document processing failed: No text content found in PDF''), g)
      else
        let chunks = chunk_text cfg uuid_hex8 pages None None in
        if chunks = [] then
          (Inl (Exception ''Document processing failed: Failed to create chunks from document''), g)
        else
          let texts = map content chunks in
          case generate_embeddings lib g texts ''auto'' of
            (Inl e, g') \<Rightarrow> (Inl e, g')
          | (Inr embeddings, g') \<Rightarrow>
              (store_embeddings_in_database conn document_id chunks embeddings, g'))"


section \<open>Answer path (\<open>llm_service.py\<close>, \<open>chat_service.py\<close>)\<close>

record citation =
  cit_chunk_id :: string
  cit_page_number :: "int option"
  cit_similarity :: real

record response_data =
  rd_response :: string
  rd_citations :: "citation list"
  rd_has_context :: bool

definition newline :: string where
  "newline = [char_of (10 :: nat)]"

fun context_lines :: "nat \<Rightarrow> hit list \<Rightarrow> string list" where
  \<comment> \<open>\<open>f"Chunk {i+1}:\n{chunk['content']}"\<close> for the chunks from position \<open>i\<close> on\<close>
  "context_lines i [] = []"
| "context_lines i (c # cs) =
     (''Chunk '' @ show_nat (i + 1) @ '':'' @ newline @ hit_content c) # context_lines (i + 1) cs"

fun join_blank :: "string list \<Rightarrow> string" where
  \<comment> \<open>\<open>"\n\n".join(xs)\<close>\<close>
  "join_blank [] = []"
| "join_blank [s] = s"
| "join_blank (s # t # ss) = s @ newline @ newline @ join_blank (t # ss)"

definition rag_prompt :: "string \<Rightarrow> string \<Rightarrow> string" where
  "rag_prompt context_text query =
     newline @ ''You are a document-based assistant.'' @ newline @ newline
     @ ''Rules:'' @ newline
     @ ''- You can Reply Casuall Greetings.'' @ newline
     @ ''- You Must Not Return any citations for greetings.'' @ newline
     @ ''- Answer ONLY using the provided context'' @ newline
     @ ''- If the answer is not explicitly stated, say: '' @ [CHR 0x22] @ ''Not found in the document'' @ [CHR 0x22] @ newline
     @ ''- Answer in clear, natural, complete sentences'' @ newline
     @ ''- Be concise and factual'' @ newline @ newline
     @ ''Context:'' @ newline @ context_text @ newline @ newline
     @ ''Question:'' @ newline @ query @ newline"

definition no_context_response :: string where
  "no_context_response =
     ''I couldn't find specific information about that in your document. This might be because: 1) The content wasn't properly extracted from the PDF, 2) The question needs different keywords, or 3) The information isn't in the uploaded document. Try rephrasing your question or re-uploading the document.''"

definition call_llm :: "(string \<Rightarrow> error + string) \<Rightarrow> string \<Rightarrow> error + string" where
  \<comment> \<open>the parameter is the completion request, returning the content of the first choice;
      the handler re-raises\<close>
  "call_llm llm prompt =
     try_except
       (case llm prompt of Inl e \<Rightarrow> Inl e | Inr answer \<Rightarrow> Inr (strip answer))
       (\<lambda>e. Inl e)"

definition generate_response ::
  "(string \<Rightarrow> error + string) \<Rightarrow> string \<Rightarrow> hit list \<Rightarrow> error + response_data" where
  "generate_response llm query context_chunks =
     (if context_chunks = [] then
        Inr \<lparr>rd_response = no_context_response, rd_citations = [], rd_has_context = False\<rparr>
      else
        let context_text = join_blank (context_lines 0 context_chunks);
            prompt = rag_prompt context_text query
        in case call_llm llm prompt of
             Inl e \<Rightarrow> Inl e
           | Inr llm_answer \<Rightarrow>
               Inr \<lparr>rd_response = llm_answer,
                    rd_citations =
                      map (\<lambda>chunk. \<lparr>cit_chunk_id = hit_chunk_id chunk,
                                     cit_page_number = hit_page_number chunk,
                                     cit_similarity = similarity chunk\<rparr>) context_chunks,
                    rd_has_context = True\<rparr>)"

record chat_result =
  message :: string
  citations :: "citation list"
  has_context :: bool
  chunks_found :: nat

text \<open>
  \<open>process_chat_message\<close>. \<open>fetched\<close> is what the query of
  \<open>generate_query_embedding\<close> delivers and \<open>conn\<close> the connection opened by
  \<open>search_similar_chunks\<close>; \<open>save\<close> is
  \<open>save_chat_message\<close>, which writes to other tables and re-raises what the database raises.
\<close>

definition process_chat_message ::
  "('m, 'v) libraries \<Rightarrow> (string \<Rightarrow> error + string)
     \<Rightarrow> (string \<Rightarrow> string \<Rightarrow> string \<Rightarrow> string \<Rightarrow> hit list \<Rightarrow> error + string)
     \<Rightarrow> error + string list \<Rightarrow> connection \<Rightarrow> string \<Rightarrow> string \<Rightarrow> string \<Rightarrow> string
     \<Rightarrow> chat_result" where
  "process_chat_message lib llm save fetched conn msg document_id user_id chat_id =
     (case
        (case generate_query_embedding lib fetched msg of
           Inl e \<Rightarrow> Inl e
         | Inr query_embedding \<Rightarrow>
             (case search_similar_chunks conn query_embedding
                     (if document_id \<noteq> [] then Some [document_id] else None) 5 0.01 of
                Inl e \<Rightarrow> Inl e
              | Inr similar_chunks \<Rightarrow>
                  (case generate_response llm msg similar_chunks of
                     Inl e \<Rightarrow> Inl e
                   | Inr response_data \<Rightarrow>
                       (case save chat_id user_id msg (rd_response response_data) similar_chunks of
                          Inl e \<Rightarrow> Inl e
                        | Inr message_id \<Rightarrow>
                            Inr \<lparr>message = rd_response response_data,
                                 citations = rd_citations response_data,
                                 has_context = rd_has_context response_data,
                                 chunks_found = length similar_chunks\<rparr>))))
      of
        Inr result \<Rightarrow> result
      | Inl e \<Rightarrow>
          \<lparr>message = ''Sorry, I encountered an error: '' @ str_error e,
           citations = [], has_context = False, chunks_found = 0\<rparr>)"

section \<open>Notions used in the proofs\<close>

definition trimmed :: "string \<Rightarrow> bool" where
  "trimmed s = (s \<noteq> [] \<and> \<not> is_space (hd s) \<and> \<not> is_space (last s))"

definition seg_inv :: "'c seg_state \<Rightarrow> bool" where
  "seg_inv st = (st_current_chunk st = join_space (st_current_sentences st)
                 \<and> (\<forall>s \<in> set (st_current_sentences st). trimmed s))"

definition seeded :: "int \<Rightarrow> string list \<Rightarrow> string list \<Rightarrow> bool" where
  "seeded coverlap g h = (g \<noteq> [] \<and> strict_prefix (overlap_window coverlap g) h)"

definition chain_inv :: "int \<Rightarrow> string list list \<Rightarrow> string list seg_state \<Rightarrow> bool" where
  "chain_inv c base st =
     (\<exists>new. st_chunks st = base @ new
        \<and> (st_current_sentences st = [] \<longrightarrow> new = [])
        \<and> successively (seeded c) (new @ [st_current_sentences st]))"

definition shift_chunks :: "'c list \<Rightarrow> nat \<Rightarrow> 'c seg_state \<Rightarrow> 'c seg_state" where
  "shift_chunks base k st =
     st\<lparr>st_chunks := base @ st_chunks st, st_chunk_index := k + st_chunk_index st\<rparr>"

definition chunk_of :: "chunk \<Rightarrow> string list \<Rightarrow> bool" where
  "chunk_of c g = (content c = join_space g \<and> sentence_count c = length g)"

definition seg_sim :: "chunk seg_state \<Rightarrow> string list seg_state \<Rightarrow> bool" where
  "seg_sim st gt = (list_all2 chunk_of (st_chunks st) (st_chunks gt)
      \<and> st_current_chunk st = st_current_chunk gt
      \<and> st_current_sentences st = st_current_sentences gt)"


text \<open>Example inputs.\<close>

definition fixed_uuid :: "nat \<Rightarrow> string" where
  "fixed_uuid i = ''0a1b2c3d''"

definition two_sentence_page :: page where
  "two_sentence_page = (1, replicate 600 CHR ''a'' @ ''.'' @ replicate 600 CHR ''b'' @ ''.'')"

text \<open>
  What a chunk opened on overflow starts with: the overlap window of the chunk \<open>prev\<close>
  closed before it when \<open>chunk_overlap > 0\<close>, nothing otherwise.
\<close>

definition opening_seed :: "int \<Rightarrow> string list \<Rightarrow> string list" where
  "opening_seed coverlap prev = (if coverlap > 0 then overlap_window coverlap prev else [])"

text \<open>
  A chunk with the sentences \<open>g\<close>, following the chunk with the sentences \<open>prev\<close>, is within
  the size, or is the seed it was opened with and one more sentence.
\<close>

definition within_size_or_opened :: "int \<Rightarrow> int \<Rightarrow> string list \<Rightarrow> string list \<Rightarrow> bool" where
  "within_size_or_opened csize coverlap prev g =
     (int (length (join_space g)) \<le> csize \<or> (g \<noteq> [] \<and> butlast g = opening_seed coverlap prev))"

definition size_inv :: "int \<Rightarrow> int \<Rightarrow> string list list \<Rightarrow> string list seg_state \<Rightarrow> bool" where
  "size_inv csize coverlap base st =
     (\<exists>new. st_chunks st = base @ new
        \<and> (if st_current_sentences st = [] then new = []
            else successively (within_size_or_opened csize coverlap)
                   ([] # new @ [st_current_sentences st])))"

definition whole_inv :: "string list \<Rightarrow> string list seg_state \<Rightarrow> bool" where
  "whole_inv sentences st =
     (set (st_current_sentences st) \<subseteq> set sentences
        \<and> list_all (\<lambda>g. set g \<subseteq> set sentences) (st_chunks st))"

text \<open>The hit made of a row and its score, and the hits of the rows that qualify, in storage order.\<close>

definition hit_of_row :: "embedding_row \<Rightarrow> real \<Rightarrow> hit" where
  "hit_of_row row s =
     \<lparr>hit_chunk_id = chunkId row, hit_content = row_content row,
      hit_page_number = pageNumber row, hit_document_id = documentId row, similarity = s\<rparr>"

definition qualifying :: "vector \<Rightarrow> real \<Rightarrow> embedding_row list \<Rightarrow> hit list" where
  "qualifying q threshold rows =
     concat (map (\<lambda>row.
        case embedding row of
          None \<Rightarrow> []
        | Some v \<Rightarrow>
            (case cosine_similarity_score q v of
               Inl e \<Rightarrow> []
             | Inr s \<Rightarrow> if threshold \<le> s then [hit_of_row row s] else [])) rows)"

definition row_a :: embedding_row where
  "row_a = \<lparr>documentId = ''docA'', chunkId = ''chunk_0_aaaaaaaa'', chunkIndex = 0,
            row_content = ''Cats are mammals'', embedding = Some [1], pageNumber = Some 1\<rparr>"

definition row_b :: embedding_row where
  "row_b = \<lparr>documentId = ''docB'', chunkId = ''chunk_0_bbbbbbbb'', chunkIndex = 0,
            row_content = ''Dogs are mammals too'', embedding = Some [1, 1], pageNumber = Some 2\<rparr>"

definition row_null :: embedding_row where
  "row_null = \<lparr>documentId = ''docA'', chunkId = ''chunk_1_cccccccc'', chunkIndex = 1,
               row_content = ''Birds are not mammals'', embedding = None, pageNumber = None\<rparr>"

text \<open>The first strategy is not available, or raises, or returns no vector.\<close>

definition strategy1_fails :: "('m, 'v) libraries \<Rightarrow> ('m, 'v) globals \<Rightarrow> string list \<Rightarrow> bool" where
  "strategy1_fails lib g texts =
     (case sentence_transformer_model g of
        None \<Rightarrow> True
      | Some model \<Rightarrow> (case st_encode lib model texts of Inl e \<Rightarrow> True | Inr r \<Rightarrow> r = []))"

text \<open>Libraries for the examples: one where every call raises, one that gives every text the vector \<open>[1]\<close>.\<close>

definition failing_lib :: "(unit, unit) libraries" where
  "failing_lib =
     \<lparr>st_encode = (\<lambda>model texts. Inl (Exception ''encode failed'')),
      tfidf_fit = (\<lambda>texts. Inl (Exception ''empty vocabulary'')),
      tfidf_transform = (\<lambda>v texts. Inl (Exception ''transform failed'')),
      list_of_set = remdups\<rparr>"

definition unit_lib :: "(unit, unit) libraries" where
  "unit_lib =
     \<lparr>st_encode = (\<lambda>model texts. Inl (Exception ''encode failed'')),
      tfidf_fit = (\<lambda>texts. Inr ()),
      tfidf_transform = (\<lambda>v texts. Inr (map (\<lambda>text. [1]) texts)),
      list_of_set = remdups\<rparr>"

definition no_globals :: "(unit, unit) globals" where
  "no_globals = \<lparr>sentence_transformer_model = None, tfidf_vectorizer = None\<rparr>"

text \<open>A generation call that answers and one that raises; a save that succeeds.\<close>

definition llm_ok :: "string \<Rightarrow> error + string" where
  "llm_ok prompt = Inr ''Cats are mammals.''"

definition llm_down :: "string \<Rightarrow> error + string" where
  "llm_down prompt = Inl (Exception ''Request timed out.'')"

definition save_ok :: "string \<Rightarrow> string \<Rightarrow> string \<Rightarrow> string \<Rightarrow> hit list \<Rightarrow> error + string" where
  "save_ok session_id user_id query response chunks_used = Inr ''message-1''"

text \<open>What the conflict clause of the insertion does to one stored row, and all of a batch in turn.\<close>

definition row_update :: "chunk \<times> vector \<Rightarrow> embedding_row \<Rightarrow> embedding_row" where
  "row_update ce row =
     (if chunkId row = chunk_id (fst ce)
      then row\<lparr>row_content := content (fst ce), embedding := Some (snd ce),
               pageNumber := Some (page_number (fst ce))\<rparr>
      else row)"

definition batch_update :: "(chunk \<times> vector) list \<Rightarrow> embedding_row \<Rightarrow> embedding_row" where
  "batch_update xs row = foldl (\<lambda>r ce. row_update ce r) row xs"

definition map_chunks :: "('a \<Rightarrow> 'b) \<Rightarrow> 'a seg_state \<Rightarrow> 'b seg_state" where
  "map_chunks f st =
     \<lparr>st_chunks = map f (st_chunks st), st_chunk_index = st_chunk_index st,
      st_current_chunk = st_current_chunk st, st_current_sentences = st_current_sentences st\<rparr>"

definition without_id :: "chunk \<Rightarrow> chunk" where
  "without_id c = c\<lparr>chunk_id := []\<rparr>"

text \<open>A one-page document, a second series of random draws, and the rows the two runs store.\<close>

definition cats_page :: page where
  "cats_page = (1, ''Cats are mammals. Dogs are mammals too.'')"

definition other_uuid :: "nat \<Rightarrow> string" where
  "other_uuid i = ''f9e8d7c6''"

definition fitted_globals :: "(unit, unit) globals" where
  "fitted_globals = \<lparr>sentence_transformer_model = None, tfidf_vectorizer = Some (Fitted ())\<rparr>"

definition stored_first :: embedding_row where
  "stored_first = \<lparr>documentId = ''doc-1'', chunkId = ''chunk_0_0a1b2c3d'', chunkIndex = 0,
                   row_content = ''Cats are mammals Dogs are mammals too'',
                   embedding = Some [1], pageNumber = Some 1\<rparr>"

definition stored_second :: embedding_row where
  "stored_second = \<lparr>documentId = ''doc-1'', chunkId = ''chunk_0_f9e8d7c6'', chunkIndex = 0,
                    row_content = ''Cats are mammals Dogs are mammals too'',
                    embedding = Some [1], pageNumber = Some 1\<rparr>"

section \<open>Sentence splitting\<close>

lemma clean_sentences_filter:
  "clean_sentences fs = filter (\<lambda>s. 10 < length s) (map strip fs)"
  by (induction fs) (auto simp: Let_def)

lemma filter_dropWhile_neg:
  "filter (\<lambda>c. \<not> P c) (dropWhile P xs) = filter (\<lambda>c. \<not> P c) xs"
  by (induction xs) auto

lemma concat_re_split: "concat (re_split s) = filter (\<lambda>c. \<not> is_delim c) s"
  by (induction s rule: re_split.induct) (auto simp: filter_dropWhile_neg split: list.splits)

lemma re_split_no_delim:
  assumes "f \<in> set (re_split s)" and "c \<in> set f"
  shows "\<not> is_delim c"
proof -
  from assms have "c \<in> set (concat (re_split s))" by auto
  then show ?thesis by (simp add: concat_re_split)
qed

text \<open>
  Claim C7, as stated: a fragment is kept exactly when its trimmed length is at least 10.
  The text \<open>abcdefghij.\<close> splits into the fragment \<open>abcdefghij\<close>, of trimmed length 10, and
  an empty one; the source keeps neither, since it tests \<open>len(sentence) > 10\<close>.
\<close>

theorem split_into_sentences_length_10_dropped:
  "re_split ''abcdefghij.'' = [''abcdefghij'', []]
   \<and> length (strip ''abcdefghij'') = 10
   \<and> split_into_sentences ''abcdefghij.'' = []"
  by (simp add: split_into_sentences_def strip_def is_space_def is_delim_def)

text \<open>
  Claim C7, amended: the text is broken on the runs of \<open>.\<close>, \<open>!\<close>, \<open>?\<close> (the fragments
  hold the other characters of the text, in order, and no delimiter), and the sentences are
  exactly the trimmed fragments of more than 10 characters, in order; a fragment of at most
  10 characters after trimming is discarded.
\<close>

theorem split_into_sentences_keeps_longer_than_10:
  "split_into_sentences text = filter (\<lambda>s. 10 < length s) (map strip (re_split text))
   \<and> concat (re_split text) = filter (\<lambda>c. \<not> is_delim c) text
   \<and> (\<forall>f \<in> set (re_split text). \<forall>c \<in> set f. \<not> is_delim c)"
  using re_split_no_delim
  by (auto simp: split_into_sentences_def clean_sentences_filter concat_re_split)

theorem split_into_sentences_keeps_longer_than_10_witness:
  "split_into_sentences ''Cats are mammals. Hi! Dogs are mammals too?!''
     = [''Cats are mammals'', ''Dogs are mammals too'']
   \<and> re_split ''Cats are mammals. Hi! Dogs are mammals too?!''
     = [''Cats are mammals'', '' Hi'', '' Dogs are mammals too'', []]
   \<and> list_all (list_all (\<lambda>c. \<not> is_delim c))
        (re_split ''Cats are mammals. Hi! Dogs are mammals too?!'')"
proof -
  have r: "re_split ''Cats are mammals. Hi! Dogs are mammals too?!''
     = [''Cats are mammals'', '' Hi'', '' Dogs are mammals too'', []]"
    by (simp add: is_delim_def)
  have k: "split_into_sentences ''Cats are mammals. Hi! Dogs are mammals too?!''
     = [''Cats are mammals'', ''Dogs are mammals too'']"
    unfolding split_into_sentences_def r by (simp add: strip_def is_space_def)
  show ?thesis
    using split_into_sentences_keeps_longer_than_10
      [of "''Cats are mammals. Hi! Dogs are mammals too?!''"]
    by (simp add: r k is_delim_def)
qed

section \<open>Overlap of consecutive chunks\<close>

lemma strip_trimmed: "trimmed s \<Longrightarrow> strip s = s"
proof -
  assume t: "trimmed s"
  then have a: "dropWhile is_space s = s"
    by (simp add: trimmed_def dropWhile_eq_self_iff)
  from t have "dropWhile is_space (rev s) = rev s"
    by (simp add: trimmed_def dropWhile_eq_self_iff hd_rev)
  with a show ?thesis by (simp add: strip_def)
qed

lemma trimmed_strip: "strip s \<noteq> [] \<Longrightarrow> trimmed (strip s)"
proof -
  let ?y = "dropWhile is_space s"
  let ?d = "dropWhile is_space (rev ?y)"
  assume ne: "strip s \<noteq> []"
  then have d: "?d \<noteq> []" by (simp add: strip_def)
  then have "\<not> is_space (hd ?d)" by (rule hd_dropWhile)
  then have l: "\<not> is_space (last (strip s))"
    using d by (simp add: strip_def last_rev)
  have "strip s @ rev (takeWhile is_space (rev ?y)) = rev (takeWhile is_space (rev ?y) @ ?d)"
    by (simp only: strip_def rev_append)
  also have "\<dots> = rev (rev ?y)" by (simp only: takeWhile_dropWhile_id)
  finally have y: "?y = strip s @ rev (takeWhile is_space (rev ?y))" by simp
  with ne have "?y \<noteq> []" by (metis append_is_Nil_conv)
  then have "\<not> is_space (hd ?y)" by (rule hd_dropWhile)
  moreover from y ne have "hd ?y = hd (strip s)" by (metis hd_append2)
  ultimately show ?thesis using ne l by (simp add: trimmed_def)
qed

lemma clean_sentences_trimmed: "s \<in> set (clean_sentences fs) \<Longrightarrow> trimmed s"
  by (induction fs) (auto simp: Let_def trimmed_strip split: if_splits)

lemma join_space_snoc:
  "join_space (ss @ [s]) = (if ss = [] then s else join_space ss @ '' '' @ s)"
  by (induction ss rule: join_space.induct) auto

lemma join_space_Nil_iff: "\<forall>s \<in> set ss. s \<noteq> [] \<Longrightarrow> join_space ss = [] \<longleftrightarrow> ss = []"
  by (induction ss rule: join_space.induct) auto

lemma hd_join_space: "ss \<noteq> [] \<Longrightarrow> hd ss \<noteq> [] \<Longrightarrow> hd (join_space ss) = hd (hd ss)"
  by (induction ss rule: join_space.induct) auto

lemma last_join_space:
  "ss \<noteq> [] \<Longrightarrow> \<forall>s \<in> set ss. s \<noteq> [] \<Longrightarrow> last (join_space ss) = last (last ss)"
proof (induction ss rule: join_space.induct)
  case (3 s t ss)
  then have "join_space (t # ss) \<noteq> []"
    using join_space_Nil_iff [of "t # ss"] by simp
  with 3 show ?case by simp
qed simp_all

lemma trimmed_join_space:
  assumes "ss \<noteq> []" and "\<forall>s \<in> set ss. trimmed s"
  shows "trimmed (join_space ss)"
proof -
  from assms have h: "trimmed (hd ss)" and l: "trimmed (last ss)" by auto
  from assms have "join_space ss \<noteq> []"
    using join_space_Nil_iff [of ss] by (auto simp: trimmed_def)
  then show ?thesis
    using assms h l by (simp add: trimmed_def hd_join_space last_join_space)
qed

lemma overlap_window_subset: "set (overlap_window c ss) \<subseteq> set ss"
  by (auto simp: overlap_window_def Let_def dest: in_set_dropD)

lemma overlap_window_nonempty: "ss \<noteq> [] \<Longrightarrow> overlap_window c ss \<noteq> []"
  by (auto simp: overlap_window_def Let_def)

lemma overlap_window_drop:
  "overlap_window c ss = drop (length ss - nat (max 1 (c div 100))) ss"
  by (auto simp: overlap_window_def Let_def)

lemma seg_inv_strip:
  assumes "seg_inv st"
  shows "strip (st_current_chunk st) = st_current_chunk st"
    and "st_current_chunk st = [] \<longleftrightarrow> st_current_sentences st = []"
proof -
  show e: "st_current_chunk st = [] \<longleftrightarrow> st_current_sentences st = []"
    using assms join_space_Nil_iff [of "st_current_sentences st"]
    by (auto simp: seg_inv_def trimmed_def)
  show "strip (st_current_chunk st) = st_current_chunk st"
  proof (cases "st_current_sentences st = []")
    case True
    with e show ?thesis by (simp add: strip_def)
  next
    case False
    with assms have "trimmed (st_current_chunk st)"
      by (simp add: seg_inv_def trimmed_join_space)
    then show ?thesis by (rule strip_trimmed)
  qed
qed

lemma seg_inv_add_sentence:
  "seg_inv st \<Longrightarrow> trimmed s \<Longrightarrow> seg_inv (add_sentence s st)"
  using seg_inv_strip(2) [of st]
  by (auto simp: seg_inv_def add_sentence_def join_space_snoc)

lemma seg_inv_save_if_content: "seg_inv (save_if_content emit st) = seg_inv st"
  by (simp add: seg_inv_def save_if_content_def save_chunk_def)

lemma seg_inv_start_new_chunk: "seg_inv st \<Longrightarrow> seg_inv (start_new_chunk c st)"
  using overlap_window_subset [of c "st_current_sentences st"]
  by (auto simp: seg_inv_def start_new_chunk_def Let_def)

lemma seg_inv_chunk_step:
  "seg_inv st \<Longrightarrow> trimmed s \<Longrightarrow> seg_inv (chunk_step emit csize c st s)"
  by (simp add: chunk_step_def Let_def seg_inv_add_sentence seg_inv_start_new_chunk
      seg_inv_save_if_content)

lemma seeded_snoc: "seeded c g h \<Longrightarrow> seeded c g (h @ [s])"
  by (auto simp: seeded_def strict_prefix_def)

lemma successively_snoc_last:
  assumes "successively P (xs @ [h])" and "\<And>g. P g h \<Longrightarrow> P g h'"
  shows "successively P (xs @ [h'])"
  using assms by (cases xs rule: rev_cases) (auto simp: successively_append_iff)

text \<open>
  The groups saved since the page began, followed by the running group, form a chain.
\<close>

lemma chain_inv_chunk_step:
  fixes st :: "string list seg_state"
  assumes "0 < c" and "seg_inv st" and "chain_inv c base st"
  shows "chain_inv c base (chunk_step (\<lambda>idx cur sents. sents) csize c st s)"
proof -
  let ?emit = "\<lambda>(idx::nat) (cur::string) (sents::string list). sents"
  from assms(3) obtain new where new: "st_chunks st = base @ new"
    "st_current_sentences st = [] \<longrightarrow> new = []"
    "successively (seeded c) (new @ [st_current_sentences st])"
    by (auto simp: chain_inv_def)
  show ?thesis
  proof (cases "int (length (st_current_chunk st @ '' '' @ s)) \<le> csize")
    case True
    have "successively (seeded c) (new @ [st_current_sentences st @ [s]])"
      using new(3) by (rule successively_snoc_last) (rule seeded_snoc)
    with True new show ?thesis
      by (auto simp: chain_inv_def chunk_step_def Let_def add_sentence_def)
  next
    case False
    show ?thesis
    proof (cases "st_current_sentences st = []")
      case True
      with assms(2) have "st_current_chunk st = []"
        by (simp add: seg_inv_strip(2))
      with True False new show ?thesis
        by (simp add: chain_inv_def chunk_step_def Let_def add_sentence_def
            start_new_chunk_def save_if_content_def strip_def)
    next
      case ne: False
      with assms(2) have "strip (st_current_chunk st) \<noteq> []"
        by (simp add: seg_inv_strip)
      then have step: "chunk_step ?emit csize c st s =
          add_sentence s (start_new_chunk c (save_chunk ?emit st))"
        using False by (simp add: chunk_step_def Let_def save_if_content_def)
      let ?w = "overlap_window c (st_current_sentences st)"
      have "seeded c (st_current_sentences st) (?w @ [s])"
        using ne by (simp add: seeded_def strict_prefix_def)
      with new(3) have "successively (seeded c) ((new @ [st_current_sentences st]) @ [?w @ [s]])"
        by (simp add: successively_append_iff)
      then show ?thesis
        using new(1) ne assms(1) unfolding step chain_inv_def
        by (intro exI [of _ "new @ [st_current_sentences st]"])
          (simp add: add_sentence_def start_new_chunk_def save_chunk_def Let_def)
    qed
  qed
qed

lemma foldl_chunk_step_inv:
  fixes st :: "string list seg_state"
  assumes "0 < c" and "\<forall>s \<in> set ss. trimmed s" and "seg_inv st" and "chain_inv c base st"
  shows "seg_inv (foldl (chunk_step (\<lambda>idx cur sents. sents) csize c) st ss)
       \<and> chain_inv c base (foldl (chunk_step (\<lambda>idx cur sents. sents) csize c) st ss)"
  using assms(2-)
proof (induction ss arbitrary: st)
  case Nil
  then show ?case by simp
next
  case (Cons s ss)
  then show ?case
    using assms(1) by (simp add: seg_inv_chunk_step chain_inv_chunk_step)
qed


lemma chunk_step_shift:
  "chunk_step (\<lambda>idx cur sents. f cur sents) csize c (shift_chunks base k st) s =
   shift_chunks base k (chunk_step (\<lambda>idx cur sents. f cur sents) csize c st s)"
  by (simp add: chunk_step_def Let_def add_sentence_def start_new_chunk_def
      save_if_content_def save_chunk_def shift_chunks_def)

lemma foldl_chunk_step_shift:
  "foldl (chunk_step (\<lambda>idx cur sents. f cur sents) csize c) (shift_chunks base k st) ss =
   shift_chunks base k (foldl (chunk_step (\<lambda>idx cur sents. f cur sents) csize c) st ss)"
  by (induction ss arbitrary: st) (simp_all add: chunk_step_shift)

lemma chunk_page_shift:
  "fst (chunk_page (\<lambda>pn idx cur sents. f cur sents) csize c (base, k) pg) =
   base @ fst (chunk_page (\<lambda>pn idx cur sents. f cur sents) csize c ([], 0) pg)"
proof -
  let ?step = "chunk_step (\<lambda>idx cur sents. f cur sents) csize c"
  let ?init = "\<lparr>st_chunks = [], st_chunk_index = 0, st_current_chunk = [],
      st_current_sentences = []\<rparr> :: 'a seg_state"
  have "\<lparr>st_chunks = base, st_chunk_index = k, st_current_chunk = [],
      st_current_sentences = []\<rparr> = shift_chunks base k ?init"
    by (simp add: shift_chunks_def)
  then have "foldl ?step \<lparr>st_chunks = base, st_chunk_index = k, st_current_chunk = [],
      st_current_sentences = []\<rparr> (split_into_sentences (snd pg)) =
      shift_chunks base k (foldl ?step ?init (split_into_sentences (snd pg)))"
    by (simp only: foldl_chunk_step_shift)
  then show ?thesis
    by (simp add: chunk_page_def Let_def save_if_content_def save_chunk_def shift_chunks_def)
qed

lemma chunk_pages_concat_aux:
  "fst (foldl (chunk_page (\<lambda>pn idx cur sents. f cur sents) csize c) (base, k) pages) =
   base @ concat (map (\<lambda>pg. fst (chunk_page (\<lambda>pn idx cur sents. f cur sents) csize c ([], 0) pg)) pages)"
proof (induction pages arbitrary: base k)
  case Nil
  then show ?case by simp
next
  case (Cons pg pages)
  obtain b' k' where st: "chunk_page (\<lambda>pn idx cur sents. f cur sents) csize c (base, k) pg = (b', k')"
    by (cases "chunk_page (\<lambda>pn idx cur sents. f cur sents) csize c (base, k) pg")
  then have "b' = base @ fst (chunk_page (\<lambda>pn idx cur sents. f cur sents) csize c ([], 0) pg)"
    using chunk_page_shift [of f csize c base k pg] by simp
  with st Cons.IH [of b' k'] show ?case by simp
qed

lemma chunk_sentences_concat:
  "chunk_sentences csize c pages = concat (map (\<lambda>pg. chunk_sentences csize c [pg]) pages)"
  using chunk_pages_concat_aux [of "\<lambda>cur sents. sents" csize c "[]" 0 pages]
  by (simp add: chunk_sentences_def chunk_pages_def)

lemma chunk_sentences_page_chain:
  assumes "0 < c"
  shows "successively (seeded c) (chunk_sentences csize c [pg])"
proof -
  let ?step = "chunk_step (\<lambda>idx cur sents. sents) csize c"
  let ?init = "\<lparr>st_chunks = [], st_chunk_index = 0, st_current_chunk = [],
      st_current_sentences = []\<rparr> :: string list seg_state"
  let ?st = "foldl ?step ?init (split_into_sentences (snd pg))"
  have t: "\<forall>s \<in> set (split_into_sentences (snd pg)). trimmed s"
    by (auto simp: split_into_sentences_def dest: clean_sentences_trimmed)
  have i0: "seg_inv ?init" and c0: "chain_inv c [] ?init"
    by (simp_all add: seg_inv_def chain_inv_def)
  have "seg_inv ?st \<and> chain_inv c [] ?st"
    by (rule foldl_chunk_step_inv [OF assms t i0 c0])
  then have inv: "seg_inv ?st" and ch: "chain_inv c [] ?st"
    by blast+
  from ch obtain new where new: "st_chunks ?st = new"
    "st_current_sentences ?st = [] \<longrightarrow> new = []"
    "successively (seeded c) (new @ [st_current_sentences ?st])"
    by (auto simp: chain_inv_def)
  have cs: "chunk_sentences csize c [pg] = st_chunks (save_if_content (\<lambda>idx cur sents. sents) ?st)"
    by (simp add: chunk_sentences_def chunk_pages_def chunk_page_def Let_def)
  show ?thesis
  proof (cases "st_current_sentences ?st = []")
    case True
    with inv new show ?thesis
      unfolding cs by (simp add: save_if_content_def seg_inv_strip)
  next
    case False
    with inv have "strip (st_current_chunk ?st) \<noteq> []"
      by (simp add: seg_inv_strip)
    with new show ?thesis
      unfolding cs by (simp add: save_if_content_def save_chunk_def)
  qed
qed

lemma seeded_shares:
  assumes "seeded c g h"
  shows "set g \<inter> set h \<noteq> {}"
proof -
  from assms have "overlap_window c g \<noteq> []"
    by (simp add: seeded_def overlap_window_nonempty)
  then obtain x where x: "x \<in> set (overlap_window c g)"
    by (cases "overlap_window c g") auto
  then have "x \<in> set g" using overlap_window_subset by blast
  moreover from assms x have "x \<in> set h"
    by (auto simp: seeded_def strict_prefix_def prefix_def)
  ultimately show ?thesis by blast
qed

lemma seg_sim_inv: "seg_sim st gt \<Longrightarrow> seg_inv gt \<Longrightarrow> seg_inv st"
  by (simp add: seg_sim_def seg_inv_def)

lemma seg_sim_save_if_content:
  assumes "seg_sim st gt" and "seg_inv gt"
  shows "seg_sim (save_if_content (chunk_data uu pn) st) (save_if_content (\<lambda>idx cur sents. sents) gt)"
proof -
  from assms have "strip (st_current_chunk gt) = join_space (st_current_sentences gt)"
    using seg_inv_strip(1) [of gt] by (simp add: seg_inv_def)
  with assms(1) show ?thesis
    by (simp add: seg_sim_def save_if_content_def save_chunk_def chunk_data_def chunk_of_def
        list_all2_appendI)
qed

lemma seg_sim_start_new_chunk:
  "seg_sim st gt \<Longrightarrow> seg_sim (start_new_chunk c st) (start_new_chunk c gt)"
  by (simp add: seg_sim_def start_new_chunk_def Let_def)

lemma seg_sim_add_sentence:
  "seg_sim st gt \<Longrightarrow> seg_sim (add_sentence s st) (add_sentence s gt)"
  by (simp add: seg_sim_def add_sentence_def)

lemma seg_sim_chunk_step:
  assumes "seg_sim st gt" and "seg_inv gt"
  shows "seg_sim (chunk_step (chunk_data uu pn) csize c st s)
                 (chunk_step (\<lambda>idx cur sents. sents) csize c gt s)"
proof -
  from assms(1) have "st_current_chunk st = st_current_chunk gt"
    by (simp add: seg_sim_def)
  then show ?thesis
    using assms
    by (simp add: chunk_step_def Let_def seg_sim_add_sentence seg_sim_start_new_chunk
        seg_sim_save_if_content)
qed

lemma seg_inv_foldl:
  "\<forall>s \<in> set ss. trimmed s \<Longrightarrow> seg_inv st \<Longrightarrow> seg_inv (foldl (chunk_step emit csize c) st ss)"
  by (induction ss arbitrary: st) (simp_all add: seg_inv_chunk_step)

lemma seg_sim_foldl:
  assumes "\<forall>s \<in> set ss. trimmed s" and "seg_sim st gt" and "seg_inv gt"
  shows "seg_sim (foldl (chunk_step (chunk_data uu pn) csize c) st ss)
                 (foldl (chunk_step (\<lambda>idx cur sents. sents) csize c) gt ss)"
  using assms
proof (induction ss arbitrary: st gt)
  case Nil
  then show ?case by simp
next
  case (Cons s ss)
  then show ?case
    by (simp add: seg_sim_chunk_step seg_inv_chunk_step)
qed

lemma chunk_page_sim:
  assumes "list_all2 chunk_of cs gs"
  shows "list_all2 chunk_of (fst (chunk_page (chunk_data uu) csize c (cs, k) pg))
                            (fst (chunk_page (\<lambda>pn idx cur sents. sents) csize c (gs, k') pg))"
proof -
  let ?s = "\<lparr>st_chunks = cs, st_chunk_index = k, st_current_chunk = [],
      st_current_sentences = []\<rparr>"
  let ?g = "\<lparr>st_chunks = gs, st_chunk_index = k', st_current_chunk = [],
      st_current_sentences = []\<rparr>"
  have t: "\<forall>s \<in> set (split_into_sentences (snd pg)). trimmed s"
    by (auto simp: split_into_sentences_def dest: clean_sentences_trimmed)
  have s0: "seg_sim ?s ?g" using assms by (simp add: seg_sim_def)
  have i0: "seg_inv ?g" by (simp add: seg_inv_def)
  note f = seg_sim_foldl [OF t s0 i0, of uu "fst pg" csize c]
  have "seg_inv (foldl (chunk_step (\<lambda>idx cur sents. sents) csize c) ?g (split_into_sentences (snd pg)))"
    using t i0 by (rule seg_inv_foldl)
  with f have "seg_sim (save_if_content (chunk_data uu (fst pg))
                  (foldl (chunk_step (chunk_data uu (fst pg)) csize c) ?s (split_into_sentences (snd pg))))
               (save_if_content (\<lambda>idx cur sents. sents)
                  (foldl (chunk_step (\<lambda>idx cur sents. sents) csize c) ?g (split_into_sentences (snd pg))))"
    by (simp add: seg_sim_save_if_content)
  then show ?thesis
    by (simp add: chunk_page_def Let_def seg_sim_def)
qed

lemma chunk_pages_sim_aux:
  assumes "list_all2 chunk_of cs gs"
  shows "list_all2 chunk_of (fst (foldl (chunk_page (chunk_data uu) csize c) (cs, k) pages))
            (fst (foldl (chunk_page (\<lambda>pn idx cur sents. sents) csize c) (gs, k') pages))"
  using assms
proof (induction pages arbitrary: cs gs k k')
  case Nil
  then show ?case by simp
next
  case (Cons pg pages)
  obtain cs1 k1 where a: "chunk_page (chunk_data uu) csize c (cs, k) pg = (cs1, k1)"
    by (cases "chunk_page (chunk_data uu) csize c (cs, k) pg")
  obtain gs1 k1' where b: "chunk_page (\<lambda>pn idx cur sents. sents) csize c (gs, k') pg = (gs1, k1')"
    by (cases "chunk_page (\<lambda>pn idx cur sents. sents) csize c (gs, k') pg")
  from a b chunk_page_sim [OF Cons.prems, of uu csize c k pg k']
  have "list_all2 chunk_of cs1 gs1" by simp
  from Cons.IH [OF this, of k1 k1'] a b show ?case by simp
qed

lemma chunk_text_sentences:
  "list_all2 chunk_of (chunk_text cfg uu pages None None)
     (chunk_sentences (chunk_size cfg) (chunk_overlap cfg) pages)"
  using chunk_pages_sim_aux [of "[]" "[]" uu "chunk_size cfg" "chunk_overlap cfg" 0 pages 0]
  by (simp add: chunk_text_def chunk_sentences_def chunk_pages_def)

lemma list_all2_chunk_of_maps:
  "list_all2 chunk_of cs gs \<Longrightarrow>
     map content cs = map join_space gs \<and> map sentence_count cs = map length gs"
  by (induction rule: list_all2_induct) (simp_all add: chunk_of_def)

text \<open>
  Claim C6: when \<open>chunk_overlap > 0\<close>, each chunk of a page after the first begins with
  the last \<open>max(1, chunk_overlap // 100)\<close> sentences of the chunk before it (all of its
  sentences when it has no more than that), followed by at least one more sentence, so the
  two share a sentence. The sentence lists of the chunks are \<open>chunk_sentences\<close>: the content
  of each chunk is its sentences joined by spaces and its \<open>sentence_count\<close> their number,
  and the list for a document is the concatenation of the lists of its pages.
\<close>

theorem consecutive_chunks_share_overlap:
  assumes "0 < chunk_overlap cfg"
  shows "map content (chunk_text cfg uu pages None None)
           = map join_space (chunk_sentences (chunk_size cfg) (chunk_overlap cfg) pages)
       \<and> map sentence_count (chunk_text cfg uu pages None None)
           = map length (chunk_sentences (chunk_size cfg) (chunk_overlap cfg) pages)
       \<and> chunk_sentences (chunk_size cfg) (chunk_overlap cfg) pages
           = concat (map (\<lambda>pg. chunk_sentences (chunk_size cfg) (chunk_overlap cfg) [pg]) pages)
       \<and> successively
           (\<lambda>g h. strict_prefix (drop (length g - nat (max 1 (chunk_overlap cfg div 100))) g) h
                  \<and> set g \<inter> set h \<noteq> {})
           (chunk_sentences (chunk_size cfg) (chunk_overlap cfg) [pg])"
proof -
  have "successively (seeded (chunk_overlap cfg))
          (chunk_sentences (chunk_size cfg) (chunk_overlap cfg) [pg])"
    using assms by (rule chunk_sentences_page_chain)
  then have "successively
           (\<lambda>g h. strict_prefix (drop (length g - nat (max 1 (chunk_overlap cfg div 100))) g) h
                  \<and> set g \<inter> set h \<noteq> {})
           (chunk_sentences (chunk_size cfg) (chunk_overlap cfg) [pg])"
  proof (rule successively_mono)
    fix g h
    assume "seeded (chunk_overlap cfg) g h"
    then show "strict_prefix (drop (length g - nat (max 1 (chunk_overlap cfg div 100))) g) h
                  \<and> set g \<inter> set h \<noteq> {}"
      using seeded_shares [of "chunk_overlap cfg" g h]
      by (simp add: seeded_def overlap_window_drop)
  qed
  then show ?thesis
    using list_all2_chunk_of_maps [OF chunk_text_sentences [of cfg uu pages]]
      chunk_sentences_concat [of "chunk_size cfg" "chunk_overlap cfg" pages]
    by simp
qed

theorem consecutive_chunks_share_overlap_witness:
  "0 < chunk_overlap \<lparr>chunk_size = 30, chunk_overlap = 100\<rparr>
   \<and> chunk_sentences 30 100 [(1, ''Cats are mammals. Dogs are mammals too. Birds are not mammals at all.'')]
     = [[''Cats are mammals''], [''Cats are mammals'', ''Dogs are mammals too''],
        [''Dogs are mammals too'', ''Birds are not mammals at all'']]
   \<and> successively
        (\<lambda>g h. strict_prefix (drop (length g - nat (max 1 (100 div 100))) g) h \<and> set g \<inter> set h \<noteq> {})
        (chunk_sentences 30 100 [(1, ''Cats are mammals. Dogs are mammals too. Birds are not mammals at all.'')])"
proof -
  have h: "0 < chunk_overlap \<lparr>chunk_size = 30, chunk_overlap = 100\<rparr>" by simp
  have e: "chunk_sentences 30 100 [(1, ''Cats are mammals. Dogs are mammals too. Birds are not mammals at all.'')]
     = [[''Cats are mammals''], [''Cats are mammals'', ''Dogs are mammals too''],
        [''Dogs are mammals too'', ''Birds are not mammals at all'']]"
    by code_simp
  show ?thesis
    using h e consecutive_chunks_share_overlap [OF h, of uu "[]"
        "(1, ''Cats are mammals. Dogs are mammals too. Birds are not mammals at all.'')"]
    by simp
qed

section \<open>The size of a chunk\<close>

lemma overlap_window_Nil: "overlap_window c [] = []"
  by (simp add: overlap_window_def Let_def)

lemma opening_seed_Nil: "opening_seed c [] = []"
  by (simp add: opening_seed_def overlap_window_Nil)

lemma within_size_or_opened_fits:
  "int (length (join_space g)) \<le> csize \<Longrightarrow> within_size_or_opened csize c prev g"
  by (simp add: within_size_or_opened_def)

lemma within_size_or_opened_fresh:
  "within_size_or_opened csize c prev (opening_seed c prev @ [s])"
  by (simp add: within_size_or_opened_def)

lemma successively_snoc_next:
  assumes "successively P (xs @ [a])" and "P a b"
  shows "successively P (xs @ [a, b])"
proof -
  have "successively P ((xs @ [a]) @ [b])"
    using assms by (simp add: successively_append_iff)
  then show ?thesis by simp
qed

lemma start_new_chunk_chunks: "st_chunks (start_new_chunk c st) = st_chunks st"
  by (simp add: start_new_chunk_def Let_def)

lemma start_new_chunk_sentences:
  "st_current_sentences (start_new_chunk c st) = opening_seed c (st_current_sentences st)"
  by (simp add: start_new_chunk_def opening_seed_def overlap_window_Nil Let_def)

lemma size_inv_chunk_step:
  fixes st :: "string list seg_state"
  assumes "seg_inv st" and "size_inv csize c base st"
  shows "size_inv csize c base (chunk_step (\<lambda>idx cur sents. sents) csize c st s)"
proof -
  let ?emit = "\<lambda>(idx::nat) (cur::string) (sents::string list). sents"
  let ?P = "within_size_or_opened csize c"
  let ?sents = "st_current_sentences st"
  from assms(2) obtain new where new: "st_chunks st = base @ new"
    "?sents = [] \<Longrightarrow> new = []"
    "?sents \<noteq> [] \<Longrightarrow> successively ?P ([] # new @ [?sents])"
    by (auto simp: size_inv_def split: if_splits)
  from assms(1) have cur: "st_current_chunk st = join_space ?sents"
    by (simp add: seg_inv_def)
  from assms(1) have emp: "st_current_chunk st = [] \<longleftrightarrow> ?sents = []"
    by (rule seg_inv_strip(2))
  show ?thesis
  proof (cases "int (length (st_current_chunk st @ '' '' @ s)) \<le> csize")
    case True
    then have step: "chunk_step ?emit csize c st s = add_sentence s st"
      by (simp add: chunk_step_def Let_def)
    from True cur emp have fits: "int (length (join_space (?sents @ [s]))) \<le> csize"
      by (auto simp: join_space_snoc)
    have "successively ?P ([] # new @ [?sents @ [s]])"
    proof (cases "?sents = []")
      case True
      with new(2) fits show ?thesis
        by (simp add: within_size_or_opened_fits)
    next
      case False
      then have "successively ?P (([] # new) @ [?sents])"
        using new(3) by simp
      then have "successively ?P (([] # new) @ [?sents @ [s]])"
        by (rule successively_snoc_last) (simp add: within_size_or_opened_fits fits)
      then show ?thesis by simp
    qed
    with new(1) show ?thesis
      unfolding step size_inv_def
      by (intro exI [of _ new]) (simp add: add_sentence_def)
  next
    case False
    show ?thesis
    proof (cases "?sents = []")
      case True
      with emp have "st_current_chunk st = []" by simp
      then have step: "chunk_step ?emit csize c st s = add_sentence s (start_new_chunk c st)"
        using False by (simp add: chunk_step_def Let_def save_if_content_def strip_def)
      have "within_size_or_opened csize c [] (opening_seed c [] @ [s])"
        by (rule within_size_or_opened_fresh)
      then have "successively ?P [[], [s]]"
        by (simp add: opening_seed_Nil)
      with True new(1,2) show ?thesis
        unfolding step size_inv_def
        by (intro exI [of _ "[]"])
          (simp add: add_sentence_def start_new_chunk_sentences start_new_chunk_chunks
            opening_seed_Nil)
    next
      case ne: False
      with assms(1) have "strip (st_current_chunk st) \<noteq> []"
        by (simp add: seg_inv_strip)
      then have step: "chunk_step ?emit csize c st s =
          add_sentence s (start_new_chunk c (save_chunk ?emit st))"
        using False by (simp add: chunk_step_def Let_def save_if_content_def)
      from ne new(3) have "successively ?P (([] # new) @ [?sents])"
        by simp
      then have "successively ?P (([] # new) @ [?sents, opening_seed c ?sents @ [s]])"
        by (rule successively_snoc_next) (rule within_size_or_opened_fresh)
      then have "successively ?P ([] # (new @ [?sents]) @ [opening_seed c ?sents @ [s]])"
        by simp
      with new(1) show ?thesis
        unfolding step size_inv_def
        by (intro exI [of _ "new @ [?sents]"])
          (simp add: add_sentence_def start_new_chunk_sentences start_new_chunk_chunks
            save_chunk_def)
    qed
  qed
qed

lemma size_inv_foldl:
  fixes st :: "string list seg_state"
  assumes "\<forall>s \<in> set ss. trimmed s" and "seg_inv st" and "size_inv csize c base st"
  shows "size_inv csize c base (foldl (chunk_step (\<lambda>idx cur sents. sents) csize c) st ss)"
  using assms
proof (induction ss arbitrary: st)
  case Nil
  then show ?case by simp
next
  case (Cons s ss)
  then show ?case
    by (simp add: seg_inv_chunk_step size_inv_chunk_step)
qed

lemma whole_inv_chunk_step:
  fixes st :: "string list seg_state"
  assumes "whole_inv sentences st" and "s \<in> set sentences"
  shows "whole_inv sentences (chunk_step (\<lambda>idx cur sents. sents) csize c st s)"
  using assms overlap_window_subset [of c "st_current_sentences st"]
  by (auto simp: whole_inv_def chunk_step_def Let_def add_sentence_def start_new_chunk_def
      save_if_content_def save_chunk_def)

lemma whole_inv_foldl:
  fixes st :: "string list seg_state"
  assumes "set ss \<subseteq> set sentences" and "whole_inv sentences st"
  shows "whole_inv sentences (foldl (chunk_step (\<lambda>idx cur sents. sents) csize c) st ss)"
  using assms
proof (induction ss arbitrary: st)
  case Nil
  then show ?case by simp
next
  case (Cons s ss)
  then show ?case
    by (simp add: whole_inv_chunk_step)
qed

lemma chunk_sentences_page_sizes:
  "successively (within_size_or_opened csize c) ([] # chunk_sentences csize c [pg])
   \<and> list_all (\<lambda>g. set g \<subseteq> set (split_into_sentences (snd pg))) (chunk_sentences csize c [pg])"
proof -
  let ?step = "chunk_step (\<lambda>idx cur sents. sents) csize c"
  let ?init = "\<lparr>st_chunks = [], st_chunk_index = 0, st_current_chunk = [],
      st_current_sentences = []\<rparr> :: string list seg_state"
  let ?sentences = "split_into_sentences (snd pg)"
  let ?st = "foldl ?step ?init ?sentences"
  have t: "\<forall>s \<in> set ?sentences. trimmed s"
    by (auto simp: split_into_sentences_def dest: clean_sentences_trimmed)
  have i0: "seg_inv ?init" and z0: "size_inv csize c [] ?init" and w0: "whole_inv ?sentences ?init"
    by (simp_all add: seg_inv_def size_inv_def whole_inv_def)
  have inv: "seg_inv ?st" using t i0 by (rule seg_inv_foldl)
  have sz: "size_inv csize c [] ?st" using t i0 z0 by (rule size_inv_foldl)
  have wh: "whole_inv ?sentences ?st" using subset_refl w0 by (rule whole_inv_foldl)
  have cs: "chunk_sentences csize c [pg] = st_chunks (save_if_content (\<lambda>idx cur sents. sents) ?st)"
    by (simp add: chunk_sentences_def chunk_pages_def chunk_page_def Let_def)
  show ?thesis
  proof (cases "st_current_sentences ?st = []")
    case True
    with inv sz show ?thesis
      unfolding cs by (simp add: save_if_content_def seg_inv_strip size_inv_def)
  next
    case False
    with inv have "strip (st_current_chunk ?st) \<noteq> []"
      by (simp add: seg_inv_strip)
    with False sz wh show ?thesis
      unfolding cs by (auto simp: save_if_content_def save_chunk_def size_inv_def whole_inv_def)
  qed
qed

lemma re_split_fragment:
  assumes "\<forall>c \<in> set xs. \<not> is_delim c" and "is_delim d"
  shows "re_split (xs @ d # ys) = xs # re_split (dropWhile is_delim ys)"
  using assms by (induction xs) simp_all

lemma strip_replicate:
  "0 < n \<Longrightarrow> \<not> is_space c \<Longrightarrow> strip (replicate n c) = replicate n c"
  by (rule strip_trimmed) (simp add: trimmed_def)

lemma strip_two_sentences:
  assumes "0 < n" and "0 < m" and "\<not> is_space a" and "\<not> is_space b"
  shows "strip (replicate n a @ '' '' @ replicate m b) = replicate n a @ '' '' @ replicate m b"
  using assms by (intro strip_trimmed) (simp add: trimmed_def hd_append)

lemma two_long_sentences:
  "split_into_sentences (replicate 600 CHR ''a'' @ ''.'' @ replicate 600 CHR ''b'' @ ''.'')
   = [replicate 600 CHR ''a'', replicate 600 CHR ''b'']"
proof -
  have d: "is_delim CHR ''.''" and a: "\<not> is_delim CHR ''a''" and b: "\<not> is_delim CHR ''b''"
    by (simp_all add: is_delim_def)
  have "re_split (replicate 600 CHR ''a'' @ CHR ''.'' # (replicate 600 CHR ''b'' @ ''.''))
      = replicate 600 CHR ''a'' # re_split (dropWhile is_delim (replicate 600 CHR ''b'' @ ''.''))"
    using a d by (intro re_split_fragment) simp_all
  also have "dropWhile is_delim (replicate 600 CHR ''b'' @ ''.'') = replicate 600 CHR ''b'' @ ''.''"
    using b by (simp add: dropWhile_eq_self_iff hd_append)
  also have "re_split (replicate 600 CHR ''b'' @ ''.'') = replicate 600 CHR ''b'' # re_split []"
    using re_split_fragment [of "replicate 600 CHR ''b''" "CHR ''.''" "[]"] b d by simp
  finally have r: "re_split (replicate 600 CHR ''a'' @ ''.'' @ replicate 600 CHR ''b'' @ ''.'')
      = [replicate 600 CHR ''a'', replicate 600 CHR ''b'', []]"
    by simp
  have s: "\<not> is_space CHR ''a''" "\<not> is_space CHR ''b''"
    by (simp_all add: is_space_def)
  show ?thesis
    unfolding split_into_sentences_def r
    by (simp add: strip_replicate s) (simp add: strip_def)
qed

lemma two_sentence_page_sentences:
  "chunk_sentences 1000 100 [two_sentence_page]
   = [[replicate 600 CHR ''a''], [replicate 600 CHR ''a'', replicate 600 CHR ''b'']]"
proof -
  have s: "\<not> is_space CHR ''a''" "\<not> is_space CHR ''b''"
    by (simp_all add: is_space_def)
  show ?thesis
    by (simp add: chunk_sentences_def chunk_pages_def chunk_page_def two_sentence_page_def
        two_long_sentences [simplified] chunk_step_def Let_def add_sentence_def
        start_new_chunk_def save_if_content_def save_chunk_def overlap_window_def
        strip_replicate strip_two_sentences [simplified] s)
qed

text \<open>
  Claim C3, as stated: with \<open>chunk_size = 1000\<close> no chunk exceeds 1000 characters unless it
  is a single sentence. Under the default settings (\<open>chunk_size = 1000\<close>,
  \<open>chunk_overlap = 100\<close>) a page of two sentences of 600 characters each gives a first
  chunk of 600 characters and a second chunk of 1201 characters holding both sentences: the
  chunk opened on overflow is seeded with the last sentence of the chunk before it, and the
  sentence that did not fit is added to the seed.
\<close>

theorem chunk_text_seeded_chunk_exceeds_size:
  "map (\<lambda>c. (chunk_index c, length (content c), sentence_count c))
     (chunk_text default_settings fixed_uuid [two_sentence_page] None None)
   = [(0, 600, 1), (1, 1201, 2)]"
proof -
  have s: "\<not> is_space CHR ''a''" "\<not> is_space CHR ''b''"
    by (simp_all add: is_space_def)
  have t: "strip (replicate 600 CHR ''a'' @ CHR '' '' # replicate 600 CHR ''b'')
      = replicate 600 CHR ''a'' @ CHR '' '' # replicate 600 CHR ''b''"
    using strip_two_sentences [of 600 600 "CHR ''a''" "CHR ''b''"] s by simp
  show ?thesis
    by (simp add: chunk_text_def chunk_pages_def chunk_page_def default_settings_def
        two_sentence_page_def
        two_long_sentences [simplified] chunk_step_def Let_def add_sentence_def start_new_chunk_def
        save_if_content_def save_chunk_def overlap_window_def chunk_data_def
        strip_replicate s t)
qed

text \<open>
  Claim C3, amended: a sentence is never split, and every chunk has a content of at most
  \<open>chunk_size\<close> characters (1000 by default), except a chunk that holds what it was opened
  with on overflow and nothing more: the overlap window (the last
  \<open>max(1, chunk_overlap // 100)\<close> sentences of the chunk before it on the page when
  \<open>chunk_overlap > 0\<close>, no sentence otherwise or for the first chunk of the page) followed
  by the one sentence that did not fit. The sentence lists of the chunks are
  \<open>chunk_sentences\<close>, as in claim C6.
\<close>

theorem chunk_within_size_or_opened_on_overflow:
  "map content (chunk_text cfg uu pages None None)
     = map join_space (chunk_sentences (chunk_size cfg) (chunk_overlap cfg) pages)
   \<and> chunk_sentences (chunk_size cfg) (chunk_overlap cfg) pages
     = concat (map (\<lambda>pg. chunk_sentences (chunk_size cfg) (chunk_overlap cfg) [pg]) pages)
   \<and> successively
       (\<lambda>prev g. int (length (join_space g)) \<le> chunk_size cfg
           \<or> (g \<noteq> [] \<and> butlast g =
                 (if chunk_overlap cfg > 0
                  then drop (length prev - nat (max 1 (chunk_overlap cfg div 100))) prev
                  else [])))
       ([] # chunk_sentences (chunk_size cfg) (chunk_overlap cfg) [pg])
   \<and> list_all (\<lambda>g. set g \<subseteq> set (split_into_sentences (snd pg)))
       (chunk_sentences (chunk_size cfg) (chunk_overlap cfg) [pg])"
proof -
  have "successively (within_size_or_opened (chunk_size cfg) (chunk_overlap cfg))
          ([] # chunk_sentences (chunk_size cfg) (chunk_overlap cfg) [pg])"
    using chunk_sentences_page_sizes [of "chunk_size cfg" "chunk_overlap cfg" pg] by simp
  then have "successively
       (\<lambda>prev g. int (length (join_space g)) \<le> chunk_size cfg
           \<or> (g \<noteq> [] \<and> butlast g =
                 (if chunk_overlap cfg > 0
                  then drop (length prev - nat (max 1 (chunk_overlap cfg div 100))) prev
                  else [])))
       ([] # chunk_sentences (chunk_size cfg) (chunk_overlap cfg) [pg])"
    by (rule successively_mono)
      (auto simp: within_size_or_opened_def opening_seed_def overlap_window_drop)
  then show ?thesis
    using list_all2_chunk_of_maps [OF chunk_text_sentences [of cfg uu pages]]
      chunk_sentences_concat [of "chunk_size cfg" "chunk_overlap cfg" pages]
      chunk_sentences_page_sizes [of "chunk_size cfg" "chunk_overlap cfg" pg]
    by simp
qed

theorem chunk_within_size_or_opened_on_overflow_witness:
  "chunk_sentences 1000 100 [two_sentence_page]
     = [[replicate 600 CHR ''a''], [replicate 600 CHR ''a'', replicate 600 CHR ''b'']]
   \<and> successively
       (\<lambda>prev g. int (length (join_space g)) \<le> 1000
           \<or> (g \<noteq> [] \<and> butlast g = drop (length prev - 1) prev))
       [[], [replicate 600 CHR ''a''], [replicate 600 CHR ''a'', replicate 600 CHR ''b'']]"
  using chunk_within_size_or_opened_on_overflow
    [of default_settings fixed_uuid "[two_sentence_page]" two_sentence_page]
  by (simp add: default_settings_def two_sentence_page_sentences)

section \<open>Similarity of vectors of unequal length\<close>

lemma sum_abs_pos_iff: "(0 < (\<Sum>x\<leftarrow>xs. \<bar>x\<bar>)) = (\<exists>x \<in> set xs. x \<noteq> (0::real))"
proof (induction xs)
  case Nil
  then show ?case by simp
next
  case (Cons a xs)
  have "0 \<le> (\<Sum>x\<leftarrow>xs. \<bar>x\<bar>)" by (rule sum_list_nonneg) auto
  with Cons show ?case by (cases "a = 0") auto
qed

lemma fallback_similarity_value:
  "fallback_similarity e1 e2 =
     Inr (if (\<exists>x \<in> set e1. x \<noteq> 0) \<and> (\<exists>x \<in> set e2. x \<noteq> 0) then 0.1 else 0)"
  by (simp add: fallback_similarity_def try_except_def Let_def sum_abs_pos_iff)

lemma cosine_similarity_score_total: "\<exists>s. cosine_similarity_score e1 e2 = Inr s"
  by (auto simp: cosine_similarity_score_def try_except_def fallback_similarity_value
      sk_cosine_similarity_def Let_def)

text \<open>
  Claim C4: for two vectors of unequal length \<open>cosine_similarity_score\<close> raises nothing and
  returns 0.1 when each vector has a non-zero element, and 0 otherwise.
\<close>

theorem cosine_similarity_score_unequal_length:
  assumes "length embedding1 \<noteq> length embedding2"
  shows "cosine_similarity_score embedding1 embedding2 =
           Inr (if (\<exists>x \<in> set embedding1. x \<noteq> 0) \<and> (\<exists>x \<in> set embedding2. x \<noteq> 0)
                then 0.1 else 0)"
  using assms
  by (simp add: cosine_similarity_score_def try_except_def fallback_similarity_value)

theorem cosine_similarity_score_unequal_length_witness:
  "length [1 :: real] \<noteq> length [1, 1 :: real]
   \<and> cosine_similarity_score [1] [1, 1] = Inr 0.1
   \<and> cosine_similarity_score [0] [1, 1] = Inr 0
   \<and> cosine_similarity_score [] [0, 0] = Inr 0"
  using cosine_similarity_score_unequal_length [of "[1]" "[1, 1]"]
    cosine_similarity_score_unequal_length [of "[0]" "[1, 1]"]
    cosine_similarity_score_unequal_length [of "[]" "[0, 0]"]
  by simp

section \<open>Similarity search\<close>

lemma score_row_cases:
  "score_row q thr row =
     (case embedding row of
        None \<Rightarrow> Inl (Exception ''TypeError'')
      | Some v \<Rightarrow>
          (case cosine_similarity_score q v of
             Inl e \<Rightarrow> Inl e
           | Inr s \<Rightarrow> if thr \<le> s then Inr (Some (hit_of_row row s)) else Inr None))"
  by (simp add: score_row_def hit_of_row_def split: option.splits sum.splits)

lemma score_row_fails_iff: "isl (score_row q thr row) = (embedding row = None)"
proof (cases "embedding row")
  case None
  then show ?thesis by (simp add: score_row_cases)
next
  case (Some v)
  obtain s where "cosine_similarity_score q v = Inr s"
    using cosine_similarity_score_total by blast
  with Some show ?thesis by (simp add: score_row_cases)
qed

lemma score_rows_append:
  "score_rows q thr rows results = results @ score_rows q thr rows []"
proof (induction rows arbitrary: results)
  case Nil
  then show ?case by simp
next
  case (Cons row rows)
  show ?case
    using Cons.IH [of "results @ _"] Cons.IH [of "[_]"] Cons.IH [of results]
    by (simp split: sum.splits option.splits)
qed

lemma score_rows_Cons:
  "score_rows q thr (row # rows) [] =
     (case score_row q thr row of
        Inl e \<Rightarrow> []
      | Inr None \<Rightarrow> []
      | Inr (Some h) \<Rightarrow> [h]) @ score_rows q thr rows []"
  using score_rows_append [of q thr rows "[_]"]
  by (simp split: sum.splits option.splits)

lemma score_rows_qualifying: "score_rows q thr rows [] = qualifying q thr rows"
proof (induction rows)
  case Nil
  then show ?case by (simp add: qualifying_def)
next
  case (Cons row rows)
  then show ?case
    unfolding score_rows_Cons
    by (simp add: qualifying_def score_row_cases split: option.splits sum.splits)
qed

lemma qualifying_skips_failures:
  "qualifying q thr (filter (\<lambda>row. \<not> isl (score_row q thr row)) rows) = qualifying q thr rows"
  by (induction rows) (auto simp: qualifying_def score_row_fails_iff)

lemma qualifying_threshold: "h \<in> set (qualifying q thr rows) \<Longrightarrow> thr \<le> similarity h"
  by (auto simp: qualifying_def hit_of_row_def split: option.splits sum.splits if_splits)

lemma select_rows_filter:
  "select_rows ids (filter P table) = filter P (select_rows ids table)"
  by (auto simp: select_rows_def split: option.splits intro: filter_cong)

lemma search_similar_chunks_value:
  "search_similar_chunks (Inr table) q ids limit thr =
     Inr (slice_to limit (sort_by_similarity (qualifying q thr (select_rows ids table))))"
  by (simp add: search_similar_chunks_def try_except_def Let_def score_rows_qualifying
      qualifying_def slice_to_def sort_by_similarity_def)

lemma sorted_by_similarity:
  "sorted_wrt (\<lambda>a b. similarity b \<le> similarity a) (sort_by_similarity hits)"
proof -
  have "sorted (map (\<lambda>x. - similarity x) (sort_key (\<lambda>x. - similarity x) hits))"
    by (rule sorted_sort_key)
  then show ?thesis
    by (simp add: sort_by_similarity_def sorted_map)
qed

text \<open>
  Claim C10: \<open>search_similar_chunks\<close> returns a list for every input; when the connection
  or the fetch raises it returns the empty list; and a row whose scoring raises (only a row
  without an embedding can) is skipped: the result is the result for the table without
  such rows.
\<close>

theorem search_similar_chunks_total:
  "(\<exists>hits. search_similar_chunks conn q ids limit thr = Inr hits)
   \<and> search_similar_chunks (Inl e) q ids limit thr = Inr []
   \<and> search_similar_chunks (Inr table) q ids limit thr
       = search_similar_chunks (Inr (filter (\<lambda>row. \<not> isl (score_row q thr row)) table))
           q ids limit thr
   \<and> isl (score_row q thr row) = (embedding row = None)"
proof -
  have 1: "\<exists>hits. search_similar_chunks conn q ids limit thr = Inr hits"
    by (cases conn) (simp_all add: search_similar_chunks_def try_except_def Let_def)
  have 2: "search_similar_chunks (Inl e) q ids limit thr = Inr []"
    by (simp add: search_similar_chunks_def try_except_def)
  have 3: "search_similar_chunks (Inr table) q ids limit thr
       = search_similar_chunks (Inr (filter (\<lambda>row. \<not> isl (score_row q thr row)) table))
           q ids limit thr"
    by (simp add: search_similar_chunks_value select_rows_filter qualifying_skips_failures)
  from 1 2 3 score_row_fails_iff show ?thesis by blast
qed

lemma sim_a: "cosine_similarity_score [1] [1] = Inr 1"
  by (simp add: cosine_similarity_score_def sk_cosine_similarity_def try_except_def)

lemma sim_b: "cosine_similarity_score [1] [1, 1] = Inr 0.1"
  by (simp add: cosine_similarity_score_def try_except_def fallback_similarity_value)

lemma qualifying_example:
  "qualifying [1] 0 [row_a, row_null, row_b] = [hit_of_row row_a 1, hit_of_row row_b 0.1]"
  "qualifying [1] 0 [row_a, row_b] = [hit_of_row row_a 1, hit_of_row row_b 0.1]"
  "qualifying [1] 0 [row_b, row_a] = [hit_of_row row_b 0.1, hit_of_row row_a 1]"
  "qualifying [1] 0 [row_b] = [hit_of_row row_b 0.1]"
  by (simp_all add: qualifying_def row_a_def row_b_def row_null_def sim_a sim_b)

lemma sort_example:
  "sort_by_similarity [hit_of_row row_a 1, hit_of_row row_b 0.1]
     = [hit_of_row row_a 1, hit_of_row row_b 0.1]"
  "sort_by_similarity [hit_of_row row_b 0.1, hit_of_row row_a 1]
     = [hit_of_row row_a 1, hit_of_row row_b 0.1]"
  "sort_by_similarity [hit_of_row row_b 0.1] = [hit_of_row row_b 0.1]"
  by (simp_all add: sort_by_similarity_def hit_of_row_def)

theorem search_similar_chunks_total_witness:
  "search_similar_chunks (Inr [row_a, row_null, row_b]) [1] None 5 0
     = Inr [hit_of_row row_a 1, hit_of_row row_b 0.1]
   \<and> search_similar_chunks (Inr [row_a, row_b]) [1] None 5 0
     = Inr [hit_of_row row_a 1, hit_of_row row_b 0.1]
   \<and> isl (score_row [1] 0 row_null)"
proof -
  have f: "filter (\<lambda>row. \<not> isl (score_row [1] 0 row)) [row_a, row_null, row_b] = [row_a, row_b]"
    by (simp add: score_row_fails_iff row_a_def row_b_def row_null_def)
  have v: "search_similar_chunks (Inr [row_a, row_b]) [1] None 5 0
     = Inr [hit_of_row row_a 1, hit_of_row row_b 0.1]"
    by (simp add: search_similar_chunks_value select_rows_def qualifying_example sort_example
        slice_to_def)
  have n: "embedding row_null = None" by (simp add: row_null_def)
  have "search_similar_chunks (Inr [row_a, row_null, row_b]) [1] None 5 0
      = search_similar_chunks
          (Inr (filter (\<lambda>row. \<not> isl (score_row [1] 0 row)) [row_a, row_null, row_b]))
          [1] None 5 0"
    using search_similar_chunks_total [of "Inr []" "[1]" None 5 0 "Exception []"
        "[row_a, row_null, row_b]" row_null]
    by blast
  then have "search_similar_chunks (Inr [row_a, row_null, row_b]) [1] None 5 0
      = search_similar_chunks (Inr [row_a, row_b]) [1] None 5 0"
    unfolding f .
  with v n show ?thesis
    by (simp add: score_row_fails_iff)
qed

text \<open>
  Claim C2, as stated, for every limit and every supplied scope. With \<open>limit = -1\<close> the
  slice \<open>results[:limit]\<close> drops the last result only: of two qualifying rows one is
  returned, which is more than \<open>limit\<close>. With the empty list as scope the test
  \<open>if document_ids\<close> adds no filter, and the rows of every document are searched.
\<close>

theorem search_similar_chunks_negative_limit_empty_scope:
  "search_similar_chunks (Inr [row_a, row_b]) [1] None (- 1) 0 = Inr [hit_of_row row_a 1]
   \<and> search_similar_chunks (Inr [row_a, row_b]) [1] (Some []) 5 0
       = Inr [hit_of_row row_a 1, hit_of_row row_b 0.1]"
  by (simp add: search_similar_chunks_value select_rows_def qualifying_example sort_example
      slice_to_def)

text \<open>
  Claim C2, amended: for a limit that is not negative, \<open>search_similar_chunks\<close> returns the
  first \<open>limit\<close> of the qualifying hits sorted by similarity. The qualifying hits are those
  of the rows in scope (the rows whose document is in \<open>document_ids\<close> when that list is
  given and not empty, all rows otherwise) that have an embedding and a score of at least
  the threshold. The sorted list is in non-increasing order of similarity, and the hits of
  any one similarity stand in it in storage order.
\<close>

theorem search_similar_chunks_ranked:
  assumes "0 \<le> limit"
  shows "search_similar_chunks (Inr table) q ids limit thr
           = Inr (take (nat limit) (sort_by_similarity (qualifying q thr (select_rows ids table))))
       \<and> length (take (nat limit) (sort_by_similarity (qualifying q thr (select_rows ids table))))
           \<le> nat limit
       \<and> sorted_wrt (\<lambda>a b. similarity b \<le> similarity a)
           (sort_by_similarity (qualifying q thr (select_rows ids table)))
       \<and> (\<forall>k. filter (\<lambda>h. similarity h = k)
                 (sort_by_similarity (qualifying q thr (select_rows ids table)))
              = filter (\<lambda>h. similarity h = k) (qualifying q thr (select_rows ids table)))
       \<and> list_all (\<lambda>h. thr \<le> similarity h)
           (sort_by_similarity (qualifying q thr (select_rows ids table)))
       \<and> select_rows ids table =
           (case ids of
              None \<Rightarrow> table
            | Some [] \<Rightarrow> table
            | Some (d # ds) \<Rightarrow> filter (\<lambda>row. documentId row \<in> set (d # ds)) table)"
proof -
  let ?all = "sort_by_similarity (qualifying q thr (select_rows ids table))"
  have 1: "search_similar_chunks (Inr table) q ids limit thr = Inr (take (nat limit) ?all)"
    using assms by (simp add: search_similar_chunks_value slice_to_def)
  have 2: "length (take (nat limit) ?all) \<le> nat limit" by simp
  have 3: "sorted_wrt (\<lambda>a b. similarity b \<le> similarity a) ?all"
    by (rule sorted_by_similarity)
  have 4: "filter (\<lambda>h. similarity h = k) ?all
      = filter (\<lambda>h. similarity h = k) (qualifying q thr (select_rows ids table))" for k
  proof -
    have "filter (\<lambda>h. - similarity h = - k) (sort_key (\<lambda>x. - similarity x)
            (qualifying q thr (select_rows ids table)))
        = filter (\<lambda>h. - similarity h = - k) (qualifying q thr (select_rows ids table))"
      by (rule sort_key_stable)
    then show ?thesis by (simp add: sort_by_similarity_def)
  qed
  have 5: "list_all (\<lambda>h. thr \<le> similarity h) ?all"
    by (simp add: list_all_iff sort_by_similarity_def qualifying_threshold)
  have 6: "select_rows ids table =
           (case ids of
              None \<Rightarrow> table
            | Some [] \<Rightarrow> table
            | Some (d # ds) \<Rightarrow> filter (\<lambda>row. documentId row \<in> set (d # ds)) table)"
    by (simp add: select_rows_def split: option.splits list.splits)
  from 1 2 3 4 5 6 show ?thesis by blast
qed

theorem search_similar_chunks_ranked_witness:
  "(0 :: int) \<le> 1
   \<and> search_similar_chunks (Inr [row_b, row_a]) [1] None 1 0 = Inr [hit_of_row row_a 1]
   \<and> search_similar_chunks (Inr [row_b, row_a]) [1] (Some [''docB'']) 1 0
       = Inr [hit_of_row row_b 0.1]"
proof -
  have s: "select_rows (Some [''docB'']) [row_b, row_a] = [row_b]"
    by (simp add: select_rows_def row_a_def row_b_def)
  have n: "select_rows None [row_b, row_a] = [row_b, row_a]"
    by (simp add: select_rows_def)
  show ?thesis
    using search_similar_chunks_ranked [of 1 "[row_b, row_a]" "[1]" None 0]
      search_similar_chunks_ranked [of 1 "[row_b, row_a]" "[1]" "Some [''docB'']" 0]
    by (simp add: s n qualifying_example sort_example)
qed

section \<open>Embedding generation\<close>

lemma length_generate_basic_embeddings:
  "length (generate_basic_embeddings lib texts) = length texts"
  by (simp add: generate_basic_embeddings_def Let_def)

lemma generate_embeddings_total:
  "\<exists>result g'. generate_embeddings lib g texts method = (Inr result, g')"
proof (cases "generate_tfidf_embeddings lib g texts")
  case (Pair r g1)
  then show ?thesis
    by (cases r)
      (auto simp: generate_embeddings_def Let_def split: option.splits sum.splits list.splits)
qed

lemma generate_query_embedding_total:
  "\<exists>v. generate_query_embedding lib fetched query = Inr v"
  by (auto simp: generate_query_embedding_def try_except_def Let_def
      split: sum.splits list.splits)

lemma strategy1_fails_None:
  "strategy1_fails lib g texts \<Longrightarrow>
     (case sentence_transformer_model g of
        None \<Rightarrow> None
      | Some model \<Rightarrow>
          (case st_encode lib model texts of
             Inl e \<Rightarrow> None
           | Inr [] \<Rightarrow> None
           | Inr (v # vs) \<Rightarrow> Some (v # vs))) = None"
  by (auto simp: strategy1_fails_def split: option.splits sum.splits list.splits)

text \<open>
  Claim C9: embedding generation raises nothing. For a batch, the first strategy that
  succeeds gives the result: when the first is unavailable, raises or returns nothing, the
  second is tried, and when that raises the third, which cannot raise on strings and gives
  one vector per text, so that for a batch the case that every strategy fails does not
  arise. For a query, any failure (of the connection, of the fit, of the transformation)
  gives the empty vector.
\<close>

theorem embedding_generation_never_raises:
  "(\<exists>result g'. generate_embeddings lib g texts method = (Inr result, g'))
   \<and> (texts \<noteq> [] \<and> strategy1_fails lib g texts
        \<and> generate_tfidf_embeddings lib g texts = (Inr result2, g2)
      \<longrightarrow> generate_embeddings lib g texts ''auto'' = (Inr result2, g2))
   \<and> (texts \<noteq> [] \<and> strategy1_fails lib g texts
        \<and> generate_tfidf_embeddings lib g texts = (Inl e2, g2)
      \<longrightarrow> generate_embeddings lib g texts ''auto'' = (Inr (generate_basic_embeddings lib texts), g2)
          \<and> length (generate_basic_embeddings lib texts) = length texts)
   \<and> (\<exists>v. generate_query_embedding lib fetched query = Inr v)
   \<and> generate_query_embedding lib (Inl e) query = Inr []
   \<and> (tfidf_fit lib (chunks @ [query]) = Inl e
      \<longrightarrow> generate_query_embedding lib (Inr chunks) query = Inr [])
   \<and> (tfidf_fit lib (chunks @ [query]) = Inr vz \<and> tfidf_transform lib vz [query] = Inl e
      \<longrightarrow> generate_query_embedding lib (Inr chunks) query = Inr [])"
proof -
  have 2: "generate_embeddings lib g texts ''auto'' = (Inr result2, g2)"
    if "texts \<noteq> []" "strategy1_fails lib g texts"
      "generate_tfidf_embeddings lib g texts = (Inr result2, g2)"
    using that by (simp add: generate_embeddings_def Let_def strategy1_fails_None)
  have 3: "generate_embeddings lib g texts ''auto'' = (Inr (generate_basic_embeddings lib texts), g2)"
    if "texts \<noteq> []" "strategy1_fails lib g texts"
      "generate_tfidf_embeddings lib g texts = (Inl e2, g2)"
    using that by (simp add: generate_embeddings_def Let_def strategy1_fails_None)
  have 5: "generate_query_embedding lib (Inl e) query = Inr []"
    by (simp add: generate_query_embedding_def try_except_def)
  have 6: "generate_query_embedding lib (Inr chunks) query = Inr []"
    if "tfidf_fit lib (chunks @ [query]) = Inl e"
    using that by (simp add: generate_query_embedding_def try_except_def Let_def)
  have 7: "generate_query_embedding lib (Inr chunks) query = Inr []"
    if "tfidf_fit lib (chunks @ [query]) = Inr vz" "tfidf_transform lib vz [query] = Inl e"
    using that by (simp add: generate_query_embedding_def try_except_def Let_def)
  from 2 3 5 6 7 generate_embeddings_total [of lib g texts "method"]
    generate_query_embedding_total [of lib fetched query]
    length_generate_basic_embeddings [of lib texts]
  show ?thesis by blast
qed

theorem embedding_generation_never_raises_witness:
  "generate_embeddings failing_lib no_globals [''Cats purr''] ''auto''
     = (Inr (generate_basic_embeddings failing_lib [''Cats purr'']),
        no_globals\<lparr>tfidf_vectorizer := Some Unfitted\<rparr>)
   \<and> length (generate_basic_embeddings failing_lib [''Cats purr'']) = 1
   \<and> generate_embeddings unit_lib no_globals [''Cats purr''] ''auto''
     = (Inr [[1]], no_globals\<lparr>tfidf_vectorizer := Some (Fitted ())\<rparr>)
   \<and> generate_query_embedding failing_lib (Inr [''Cats purr'']) ''cats'' = Inr []
   \<and> generate_query_embedding failing_lib (Inl (Exception ''no connection'')) ''cats'' = Inr []"
proof -
  have s: "strategy1_fails failing_lib no_globals [''Cats purr'']"
    "strategy1_fails unit_lib no_globals [''Cats purr'']"
    by (simp_all add: strategy1_fails_def no_globals_def)
  have t: "generate_tfidf_embeddings failing_lib no_globals [''Cats purr'']
      = (Inl (Exception ''empty vocabulary''), no_globals\<lparr>tfidf_vectorizer := Some Unfitted\<rparr>)"
    by (simp add: generate_tfidf_embeddings_def failing_lib_def no_globals_def)
  have u: "generate_tfidf_embeddings unit_lib no_globals [''Cats purr'']
      = (Inr [[1]], no_globals\<lparr>tfidf_vectorizer := Some (Fitted ())\<rparr>)"
    by (simp add: generate_tfidf_embeddings_def transform_or_refit_def vectorizer_transform_def
        unit_lib_def no_globals_def)
  have f: "tfidf_fit failing_lib [''Cats purr'', ''cats''] = Inl (Exception ''empty vocabulary'')"
    by (simp add: failing_lib_def)
  show ?thesis
    using embedding_generation_never_raises
      [of failing_lib no_globals "[''Cats purr'']" "''auto''" "[[1]]"
        "no_globals\<lparr>tfidf_vectorizer := Some Unfitted\<rparr>" "Exception ''empty vocabulary''"
        "Inr []" "''cats''" "Exception ''no connection''" "[''Cats purr'']" "()"]
      embedding_generation_never_raises
      [of failing_lib no_globals "[]" "''auto''" "[]" no_globals "Exception []"
        "Inr []" "''cats''" "Exception ''empty vocabulary''" "[''Cats purr'']" "()"]
      embedding_generation_never_raises
      [of unit_lib no_globals "[''Cats purr'']" "''auto''" "[[1]]"
        "no_globals\<lparr>tfidf_vectorizer := Some (Fitted ())\<rparr>" "Exception []"
        "Inr []" "''cats''" "Exception []" "[]" "()"]
    by (simp add: s t u f)
qed



section \<open>The answer path\<close>

lemma search_empty_table: "search_similar_chunks (Inr []) q ids limit thr = Inr []"
  by (simp add: search_similar_chunks_def try_except_def select_rows_def Let_def
      split: option.splits)

lemma generate_response_no_hits:
  "generate_response llm query [] =
     Inr \<lparr>rd_response = no_context_response, rd_citations = [], rd_has_context = False\<rparr>"
  by (simp add: generate_response_def)

lemma generate_response_hits:
  "hits \<noteq> [] \<Longrightarrow>
   generate_response llm query hits =
     (case call_llm llm (rag_prompt (join_blank (context_lines 0 hits)) query) of
        Inl e \<Rightarrow> Inl e
      | Inr llm_answer \<Rightarrow>
          Inr \<lparr>rd_response = llm_answer,
               rd_citations =
                 map (\<lambda>chunk. \<lparr>cit_chunk_id = hit_chunk_id chunk,
                                cit_page_number = hit_page_number chunk,
                                cit_similarity = similarity chunk\<rparr>) hits,
               rd_has_context = True\<rparr>)"
  by (simp add: generate_response_def Let_def)

lemma process_chat_message_cases:
  assumes "generate_query_embedding lib fetched msg = Inr qe"
    and "search_similar_chunks conn qe (if document_id \<noteq> [] then Some [document_id] else None)
           5 0.01 = Inr hits"
  shows "has_context (process_chat_message lib llm save fetched conn msg document_id user_id chat_id)
           = (hits \<noteq> [] \<and>
              (\<exists>answer. call_llm llm (rag_prompt (join_blank (context_lines 0 hits)) msg) = Inr answer
                 \<and> \<not> isl (save chat_id user_id msg answer hits)))"
    and "has_context (process_chat_message lib llm save fetched conn msg document_id user_id chat_id)
           \<Longrightarrow> chunks_found (process_chat_message lib llm save fetched conn msg document_id user_id chat_id)
                 = length hits
               \<and> length (citations (process_chat_message lib llm save fetched conn msg document_id
                     user_id chat_id)) = length hits"
    and "hits = []
           \<Longrightarrow> \<not> has_context (process_chat_message lib llm save fetched conn msg document_id user_id chat_id)
               \<and> citations (process_chat_message lib llm save fetched conn msg document_id user_id chat_id) = []
               \<and> chunks_found (process_chat_message lib llm save fetched conn msg document_id user_id chat_id) = 0"
proof -
  let ?r = "process_chat_message lib llm save fetched conn msg document_id user_id chat_id"
  let ?llm = "call_llm llm (rag_prompt (join_blank (context_lines 0 hits)) msg)"
  have r: "?r =
      (case (case generate_response llm msg hits of
               Inl e \<Rightarrow> Inl e
             | Inr response_data \<Rightarrow>
                 (case save chat_id user_id msg (rd_response response_data) hits of
                    Inl e \<Rightarrow> Inl e
                  | Inr message_id \<Rightarrow>
                      Inr \<lparr>message = rd_response response_data,
                           citations = rd_citations response_data,
                           has_context = rd_has_context response_data,
                           chunks_found = length hits\<rparr>)) of
         Inr result \<Rightarrow> result
       | Inl e \<Rightarrow> \<lparr>message = ''Sorry, I encountered an error: '' @ str_error e,
                   citations = [], has_context = False, chunks_found = 0\<rparr>)"
    using assms by (simp add: process_chat_message_def)
  show "has_context ?r = (hits \<noteq> [] \<and> (\<exists>answer. ?llm = Inr answer
                 \<and> \<not> isl (save chat_id user_id msg answer hits)))"
  proof (cases "hits = []")
    case True
    then show ?thesis
      unfolding r by (simp add: generate_response_no_hits split: sum.splits)
  next
    case False
    then show ?thesis
      unfolding r by (cases ?llm) (auto simp: generate_response_hits split: sum.splits)
  qed
  show "has_context ?r \<Longrightarrow> chunks_found ?r = length hits \<and> length (citations ?r) = length hits"
  proof (cases "hits = []")
    case True
    assume "has_context ?r"
    with True show ?thesis
      unfolding r by (simp add: generate_response_no_hits split: sum.splits)
  next
    case False
    assume "has_context ?r"
    with False show ?thesis
      unfolding r by (cases ?llm) (auto simp: generate_response_hits split: sum.splits)
  qed
  show "hits = [] \<Longrightarrow> \<not> has_context ?r \<and> citations ?r = [] \<and> chunks_found ?r = 0"
    unfolding r by (simp add: generate_response_no_hits split: sum.splits)
qed

lemma query_example:
  "generate_query_embedding unit_lib (Inr [''Cats are mammals'']) ''cats?'' = Inr [1]"
  by (simp add: generate_query_embedding_def try_except_def Let_def unit_lib_def)

lemma search_example:
  "search_similar_chunks (Inr [row_a]) [1] (Some [''docA'']) 5 0.01 = Inr [hit_of_row row_a 1]"
proof -
  have s: "select_rows (Some [''docA'']) [row_a] = [row_a]"
    by (simp add: select_rows_def row_a_def)
  have q: "qualifying [1] 0.01 [row_a] = [hit_of_row row_a 1]"
    by (simp add: qualifying_def row_a_def sim_a)
  show ?thesis
    unfolding search_similar_chunks_value s q
    by (simp add: sort_by_similarity_def slice_to_def)
qed

text \<open>
  Claim C8, as stated: \<open>has_context\<close> is true exactly when the search produced a hit. With
  one stored row that the search returns, and a generation call that raises, the handler
  of \<open>process_chat_message\<close> returns \<open>has_context = False\<close>.
\<close>

theorem has_context_false_when_generation_fails:
  "generate_query_embedding unit_lib (Inr [''Cats are mammals'']) ''cats?'' = Inr [1]
   \<and> search_similar_chunks (Inr [row_a]) [1] (Some [''docA'']) 5 0.01 = Inr [hit_of_row row_a 1]
   \<and> \<not> has_context (process_chat_message unit_lib llm_down save_ok (Inr [''Cats are mammals''])
                       (Inr [row_a]) ''cats?'' ''docA'' ''user-1'' ''chat-1'')"
  using process_chat_message_cases(1) [OF query_example, of "Inr [row_a]" "''docA''"
      "[hit_of_row row_a 1]" llm_down save_ok "''user-1''" "''chat-1''"]
  by (simp add: query_example search_example [simplified] call_llm_def try_except_def llm_down_def)

text \<open>
  Claim C8, amended: the answer path returns \<open>has_context = True\<close> exactly when the search
  produced at least one hit and neither the generation call nor the saving of the message
  raised; then it reports as many chunks and citations as there are hits. When the search
  produced no hit (in particular on an empty index) it returns \<open>has_context = False\<close>, no
  citation and no chunk.
\<close>

theorem has_context_iff_hits_and_no_failure:
  "\<exists>query_embedding hits.
      generate_query_embedding lib fetched msg = Inr query_embedding
    \<and> search_similar_chunks conn query_embedding
          (if document_id \<noteq> [] then Some [document_id] else None) 5 0.01 = Inr hits
    \<and> search_similar_chunks (Inr []) query_embedding
          (if document_id \<noteq> [] then Some [document_id] else None) 5 0.01 = Inr []
    \<and> has_context (process_chat_message lib llm save fetched conn msg document_id user_id chat_id)
        = (hits \<noteq> [] \<and>
           (\<exists>answer. call_llm llm (rag_prompt (join_blank (context_lines 0 hits)) msg) = Inr answer
              \<and> \<not> isl (save chat_id user_id msg answer hits)))
    \<and> (has_context (process_chat_message lib llm save fetched conn msg document_id user_id chat_id)
        \<longrightarrow> chunks_found (process_chat_message lib llm save fetched conn msg document_id user_id chat_id)
              = length hits
            \<and> length (citations (process_chat_message lib llm save fetched conn msg document_id
                  user_id chat_id)) = length hits)
    \<and> (hits = []
        \<longrightarrow> \<not> has_context (process_chat_message lib llm save fetched conn msg document_id user_id chat_id)
            \<and> citations (process_chat_message lib llm save fetched conn msg document_id user_id chat_id) = []
            \<and> chunks_found (process_chat_message lib llm save fetched conn msg document_id user_id chat_id) = 0)"
proof -
  obtain qe where qe: "generate_query_embedding lib fetched msg = Inr qe"
    using generate_query_embedding_total by blast
  obtain hits where hits: "search_similar_chunks conn qe
      (if document_id \<noteq> [] then Some [document_id] else None) 5 0.01 = Inr hits"
    using search_similar_chunks_value [of _ qe] search_similar_chunks_def [of conn qe]
    by (cases conn) (simp_all add: try_except_def)
  note c = process_chat_message_cases [OF qe hits, of llm save user_id chat_id]
  from qe hits c search_empty_table show ?thesis by blast
qed

theorem has_context_iff_hits_and_no_failure_witness:
  "has_context (process_chat_message unit_lib llm_ok save_ok (Inr [''Cats are mammals''])
                  (Inr [row_a]) ''cats?'' ''docA'' ''user-1'' ''chat-1'')
   \<and> chunks_found (process_chat_message unit_lib llm_ok save_ok (Inr [''Cats are mammals''])
                  (Inr [row_a]) ''cats?'' ''docA'' ''user-1'' ''chat-1'') = 1
   \<and> \<not> has_context (process_chat_message unit_lib llm_ok save_ok (Inr []) (Inr [])
                  ''cats?'' ''docA'' ''user-1'' ''chat-1'')
   \<and> chunks_found (process_chat_message unit_lib llm_ok save_ok (Inr []) (Inr [])
                  ''cats?'' ''docA'' ''user-1'' ''chat-1'') = 0"
proof -
  have e: "generate_query_embedding unit_lib (Inr []) ''cats?'' = Inr []"
    by (simp add: generate_query_embedding_def try_except_def)
  show ?thesis
    using has_context_iff_hits_and_no_failure [of unit_lib "Inr [''Cats are mammals'']" "''cats?''"
        "Inr [row_a]" "''docA''" llm_ok save_ok "''user-1''" "''chat-1''"]
      has_context_iff_hits_and_no_failure [of unit_lib "Inr []" "''cats?''"
        "Inr []" "''docA''" llm_ok save_ok "''user-1''" "''chat-1''"]
    by (auto simp: query_example search_example [simplified] e search_empty_table call_llm_def
        try_except_def llm_ok_def save_ok_def)
qed

section \<open>Ingesting a document twice\<close>

subsection \<open>The embeddings of the second run\<close>

lemma transform_or_refit_model:
  "transform_or_refit lib vz g texts = (r, g1) \<Longrightarrow>
     sentence_transformer_model g1 = sentence_transformer_model g"
  by (auto simp: transform_or_refit_def split: sum.splits)

lemma generate_tfidf_embeddings_model:
  "generate_tfidf_embeddings lib g texts = (r, g1) \<Longrightarrow>
     sentence_transformer_model g1 = sentence_transformer_model g"
  by (auto simp: generate_tfidf_embeddings_def split: option.splits sum.splits
      dest: transform_or_refit_model)

lemma generate_tfidf_embeddings_again:
  "generate_tfidf_embeddings lib g texts = (r, g1) \<Longrightarrow>
     generate_tfidf_embeddings lib g1 texts = (r, g1)"
  by (cases "tfidf_vectorizer g")
    (auto simp: generate_tfidf_embeddings_def transform_or_refit_def vectorizer_transform_def
      split: option.splits sum.splits vectorizer.splits)

lemma generate_embeddings_again:
  assumes "generate_embeddings lib g texts m = (r, g1)"
  shows "generate_embeddings lib g1 texts m = (r, g1)"
proof (cases "generate_tfidf_embeddings lib g texts")
  case (Pair r2 g2)
  note again = generate_tfidf_embeddings_again [OF Pair]
  note model = generate_tfidf_embeddings_model [OF Pair]
  show ?thesis
  proof (cases "texts = []")
    case True
    with assms show ?thesis by (simp add: generate_embeddings_def)
  next
    case False
    let ?s1 = "if m \<in> {''auto'', ''sentence_transformer''} then
                 (case sentence_transformer_model g of
                    None \<Rightarrow> None
                  | Some model \<Rightarrow>
                      (case st_encode lib model texts of
                         Inl e \<Rightarrow> None
                       | Inr [] \<Rightarrow> None
                       | Inr (v # vs) \<Rightarrow> Some (v # vs)))
               else None"
    show ?thesis
    proof (cases ?s1)
      case (Some result)
      with assms False have "g1 = g"
        by (simp add: generate_embeddings_def Let_def)
      with assms show ?thesis by simp
    next
      case None
      show ?thesis
      proof (cases "m \<in> {''auto'', ''tfidf''}")
        case True
        with assms False None Pair have g1: "g1 = g2"
          by (cases r2) (simp_all add: generate_embeddings_def Let_def)
        from assms False None Pair True
        have r: "r = (case r2 of Inr x \<Rightarrow> Inr x | Inl e \<Rightarrow> Inr (generate_basic_embeddings lib texts))"
          by (cases r2) (auto simp: generate_embeddings_def Let_def)
        have "(if m \<in> {''auto'', ''sentence_transformer''} then
                 (case sentence_transformer_model g2 of
                    None \<Rightarrow> None
                  | Some model \<Rightarrow>
                      (case st_encode lib model texts of
                         Inl e \<Rightarrow> None
                       | Inr [] \<Rightarrow> None
                       | Inr (v # vs) \<Rightarrow> Some (v # vs)))
               else None) = None"
          unfolding model by (rule None)
        with False True again r g1 show ?thesis
          by (cases r2) (simp_all add: generate_embeddings_def Let_def)
      next
        case nt: False
        with assms False None have "g1 = g"
          by (simp add: generate_embeddings_def Let_def)
        with assms show ?thesis by simp
      qed
    qed
  qed
qed

subsection \<open>Storing the same batch twice\<close>

lemma upsert_row_alt:
  "upsert_row d table ce =
     (if chunk_id (fst ce) \<in> chunkId ` set table then map (row_update ce) table
      else table @ [\<lparr>documentId = d, chunkId = chunk_id (fst ce),
                      chunkIndex = chunk_index (fst ce), row_content = content (fst ce),
                      embedding = Some (snd ce), pageNumber = Some (page_number (fst ce))\<rparr>])"
  by (simp add: upsert_row_def row_update_def Let_def)

lemma chunkId_row_update: "chunkId (row_update ce row) = chunkId row"
  by (simp add: row_update_def)

lemma batch_update_Nil: "batch_update [] row = row"
  by (simp add: batch_update_def)

lemma batch_update_Cons: "batch_update (x # xs) row = batch_update xs (row_update x row)"
  by (simp add: batch_update_def)

lemma chunkId_batch_update: "chunkId (batch_update xs row) = chunkId row"
  by (induction xs arbitrary: row)
    (simp_all add: batch_update_Nil batch_update_Cons chunkId_row_update)

lemma batch_update_snoc: "batch_update (xs @ [x]) row = row_update x (batch_update xs row)"
  by (simp add: batch_update_def)

lemma batch_update_other:
  "chunkId row \<notin> (\<lambda>ce. chunk_id (fst ce)) ` set xs \<Longrightarrow> batch_update xs row = row"
  by (induction xs arbitrary: row) (simp_all add: batch_update_Nil batch_update_Cons row_update_def)

lemma row_update_after_batch:
  "chunkId row = chunk_id (fst x) \<Longrightarrow> row_update x (batch_update xs row) = row_update x row"
proof (induction xs rule: rev_induct)
  case Nil
  then show ?case by (simp add: batch_update_def)
next
  case (snoc y ys)
  have k: "chunkId (batch_update ys row) = chunkId row" by (rule chunkId_batch_update)
  have "row_update x (row_update y (batch_update ys row)) = row_update x (batch_update ys row)"
    using snoc.prems k by (simp add: row_update_def)
  with snoc show ?case by (simp add: batch_update_snoc)
qed

lemma row_update_twice: "row_update x (row_update x row) = row_update x row"
  by (simp add: row_update_def)

lemma ids_upsert_row:
  "chunkId ` set (upsert_row d table ce) = insert (chunk_id (fst ce)) (chunkId ` set table)"
  by (auto simp: upsert_row_alt chunkId_row_update image_iff)

lemma ids_foldl_upsert_row:
  "chunkId ` set (foldl (upsert_row d) table xs)
     = chunkId ` set table \<union> (\<lambda>ce. chunk_id (fst ce)) ` set xs"
  by (induction xs arbitrary: table) (auto simp: ids_upsert_row)

lemma foldl_upsert_row_known:
  "(\<lambda>ce. chunk_id (fst ce)) ` set xs \<subseteq> chunkId ` set table \<Longrightarrow>
     foldl (upsert_row d) table xs = map (batch_update xs) table"
proof (induction xs arbitrary: table)
  case Nil
  then show ?case by (simp add: batch_update_def)
next
  case (Cons x xs)
  then have u: "upsert_row d table x = map (row_update x) table"
    by (simp add: upsert_row_alt)
  have "chunkId ` set (map (row_update x) table) = chunkId ` set table"
    by (simp add: image_image chunkId_row_update)
  with Cons.prems have "(\<lambda>ce. chunk_id (fst ce)) ` set xs \<subseteq> chunkId ` set (map (row_update x) table)"
    by simp
  then have "foldl (upsert_row d) (map (row_update x) table) xs
      = map (batch_update xs) (map (row_update x) table)"
    by (rule Cons.IH)
  with u show ?case by (simp add: batch_update_Cons comp_def)
qed

lemma foldl_upsert_row_settled:
  "row \<in> set (foldl (upsert_row d) table xs) \<Longrightarrow> batch_update xs row = row"
proof (induction xs arbitrary: row rule: rev_induct)
  case Nil
  then show ?case by (simp add: batch_update_def)
next
  case (snoc x xs)
  let ?T = "foldl (upsert_row d) table xs"
  from snoc.prems have mem: "row \<in> set (upsert_row d ?T x)" by simp
  show ?case
  proof (cases "chunk_id (fst x) \<in> chunkId ` set ?T")
    case True
    then have "upsert_row d ?T x = map (row_update x) ?T"
      by (simp only: upsert_row_alt if_True)
    with mem obtain r where r: "r \<in> set ?T" "row = row_update x r"
      by auto
    show ?thesis
    proof (cases "chunkId r = chunk_id (fst x)")
      case same: True
      then have "chunkId row = chunk_id (fst x)"
        using r by (simp add: chunkId_row_update)
      then have "row_update x (batch_update xs row) = row_update x row"
        by (rule row_update_after_batch)
      with r show ?thesis by (simp add: batch_update_snoc row_update_twice)
    next
      case False
      with r have "row = r" by (simp add: row_update_def)
      with r snoc.IH [of r] False show ?thesis
        by (simp add: batch_update_snoc row_update_def)
    qed
  next
    case False
    let ?new = "\<lparr>documentId = d, chunkId = chunk_id (fst x),
                      chunkIndex = chunk_index (fst x), row_content = content (fst x),
                      embedding = Some (snd x), pageNumber = Some (page_number (fst x))\<rparr>"
    from False have "upsert_row d ?T x = ?T @ [?new]"
      by (simp only: upsert_row_alt if_False)
    with mem have "row \<in> set ?T \<or> row = ?new"
      by auto
    then show ?thesis
    proof
      assume in_T: "row \<in> set ?T"
      with False have "chunkId row \<noteq> chunk_id (fst x)" by (metis imageI)
      with snoc.IH [OF in_T] show ?thesis
        by (simp add: batch_update_snoc row_update_def)
    next
      assume new: "row = ?new"
      from False have "chunk_id (fst x) \<notin> (\<lambda>ce. chunk_id (fst ce)) ` set xs"
        by (simp add: ids_foldl_upsert_row)
      with new have "batch_update xs row = row"
        by (intro batch_update_other) simp
      with new show ?thesis
        by (simp add: batch_update_snoc row_update_def)
    qed
  qed
qed

lemma foldl_upsert_row_again:
  "foldl (upsert_row d) (foldl (upsert_row d) table xs) xs = foldl (upsert_row d) table xs"
proof -
  let ?T = "foldl (upsert_row d) table xs"
  have "(\<lambda>ce. chunk_id (fst ce)) ` set xs \<subseteq> chunkId ` set ?T"
    by (simp add: ids_foldl_upsert_row)
  then have "foldl (upsert_row d) ?T xs = map (batch_update xs) ?T"
    by (rule foldl_upsert_row_known)
  also have "\<dots> = ?T"
    by (rule map_idI) (rule foldl_upsert_row_settled)
  finally show ?thesis .
qed

subsection \<open>The chunks of two runs\<close>

lemma map_chunks_current [simp]:
  "st_current_chunk (map_chunks f st) = st_current_chunk st"
  "st_current_sentences (map_chunks f st) = st_current_sentences st"
  by (simp_all add: map_chunks_def)

lemma save_if_content_map_chunks:
  "save_if_content (\<lambda>idx cur sents. f (emit idx cur sents)) (map_chunks f st)
     = map_chunks f (save_if_content emit st)"
  by (simp add: save_if_content_def save_chunk_def map_chunks_def)

lemma start_new_chunk_map_chunks:
  "start_new_chunk c (map_chunks f st) = map_chunks f (start_new_chunk c st)"
  by (simp add: start_new_chunk_def Let_def map_chunks_def)

lemma add_sentence_map_chunks:
  "add_sentence s (map_chunks f st) = map_chunks f (add_sentence s st)"
  by (simp add: add_sentence_def map_chunks_def)

lemma chunk_step_map_chunks:
  "chunk_step (\<lambda>idx cur sents. f (emit idx cur sents)) csize c (map_chunks f st) s
     = map_chunks f (chunk_step emit csize c st s)"
  by (simp add: chunk_step_def Let_def save_if_content_map_chunks start_new_chunk_map_chunks
      add_sentence_map_chunks)

lemma foldl_chunk_step_map_chunks:
  "foldl (chunk_step (\<lambda>idx cur sents. f (emit idx cur sents)) csize c) (map_chunks f st) ss
     = map_chunks f (foldl (chunk_step emit csize c) st ss)"
  by (induction ss arbitrary: st) (simp_all add: chunk_step_map_chunks)

lemma chunk_page_map:
  "chunk_page (\<lambda>pn idx cur sents. f (emit pn idx cur sents)) csize c (map f cs, k) pg
     = (map f (fst (chunk_page emit csize c (cs, k) pg)), snd (chunk_page emit csize c (cs, k) pg))"
proof -
  let ?init = "\<lparr>st_chunks = cs, st_chunk_index = k, st_current_chunk = [],
      st_current_sentences = []\<rparr>"
  have i: "\<lparr>st_chunks = map f cs, st_chunk_index = k, st_current_chunk = [],
      st_current_sentences = []\<rparr> = map_chunks f ?init"
    by (simp add: map_chunks_def)
  have "foldl (chunk_step (\<lambda>idx cur sents. f (emit (fst pg) idx cur sents)) csize c)
          (map_chunks f ?init) (split_into_sentences (snd pg))
      = map_chunks f (foldl (chunk_step (emit (fst pg)) csize c) ?init (split_into_sentences (snd pg)))"
    by (rule foldl_chunk_step_map_chunks)
  then show ?thesis
    unfolding chunk_page_def Let_def fst_conv snd_conv i
    by (simp add: save_if_content_def save_chunk_def map_chunks_def)
qed

lemma chunk_pages_map_aux:
  "fst (foldl (chunk_page (\<lambda>pn idx cur sents. f (emit pn idx cur sents)) csize c) (map f cs, k) pages)
     = map f (fst (foldl (chunk_page emit csize c) (cs, k) pages))"
proof (induction pages arbitrary: cs k)
  case Nil
  then show ?case by simp
next
  case (Cons pg pages)
  obtain cs1 k1 where a: "chunk_page emit csize c (cs, k) pg = (cs1, k1)"
    by (cases "chunk_page emit csize c (cs, k) pg")
  then have "chunk_page (\<lambda>pn idx cur sents. f (emit pn idx cur sents)) csize c (map f cs, k) pg
      = (map f cs1, k1)"
    by (simp add: chunk_page_map)
  with a Cons.IH [of cs1 k1] show ?case by simp
qed

lemma chunk_pages_map:
  "chunk_pages (\<lambda>pn idx cur sents. f (emit pn idx cur sents)) csize c pages
     = map f (chunk_pages emit csize c pages)"
  using chunk_pages_map_aux [of f emit csize c "[]" 0 pages]
  by (simp add: chunk_pages_def)

lemma chunk_text_without_id:
  "map without_id (chunk_text cfg uu' pages a b) = map without_id (chunk_text cfg uu pages a b)"
proof -
  have e: "(\<lambda>pn idx cur sents. without_id (chunk_data uu' pn idx cur sents))
      = (\<lambda>pn idx cur sents. without_id (chunk_data uu pn idx cur sents))"
    by (simp add: without_id_def chunk_data_def)
  show ?thesis
    unfolding chunk_text_def chunk_pages_map [symmetric] e ..
qed

lemma chunk_text_contents:
  "map content (chunk_text cfg uu' pages a b) = map content (chunk_text cfg uu pages a b)"
proof -
  have "map content (map without_id (chunk_text cfg uu' pages a b))
      = map content (map without_id (chunk_text cfg uu pages a b))"
    by (simp only: chunk_text_without_id [of cfg uu' pages a b uu])
  then show ?thesis by (simp add: comp_def without_id_def)
qed

subsection \<open>The two runs\<close>

lemma store_embeddings_in_database_again:
  assumes "store_embeddings_in_database (Inr table) d chunks embeddings = Inr table1"
  shows "store_embeddings_in_database (Inr table1) d chunks embeddings = Inr table1"
proof -
  from assms have l: "length chunks = length embeddings"
    and t: "table1 = foldl (upsert_row d) table (zip chunks embeddings)"
    by (auto simp: store_embeddings_in_database_def split: if_splits)
  show ?thesis
    unfolding t using l
    by (simp add: store_embeddings_in_database_def foldl_upsert_row_again)
qed

lemma ingest_stored:
  assumes "ingest cfg lib uu g (Inr table) d pages = (Inr table1, g1)"
  shows "\<exists>embeddings.
           generate_embeddings lib g (map content (chunk_text cfg uu pages None None)) ''auto''
             = (Inr embeddings, g1)
         \<and> store_embeddings_in_database (Inr table) d (chunk_text cfg uu pages None None) embeddings
             = Inr table1
         \<and> pages \<noteq> [] \<and> chunk_text cfg uu pages None None \<noteq> []"
proof (cases "generate_embeddings lib g (map content (chunk_text cfg uu pages None None)) ''auto''")
  case (Pair r g')
  with assms show ?thesis
    by (cases r) (auto simp: ingest_def Let_def split: if_splits)
qed

lemma ingest_again:
  assumes "ingest cfg lib uu g (Inr table) d pages = (Inr table1, g1)"
  shows "ingest cfg lib uu g1 (Inr table1) d pages = (Inr table1, g1)"
proof -
  from ingest_stored [OF assms] obtain embeddings where
    e: "generate_embeddings lib g (map content (chunk_text cfg uu pages None None)) ''auto''
          = (Inr embeddings, g1)"
    and s: "store_embeddings_in_database (Inr table) d (chunk_text cfg uu pages None None) embeddings
          = Inr table1"
    and n: "pages \<noteq> []" "chunk_text cfg uu pages None None \<noteq> []"
    by blast
  from e have "generate_embeddings lib g1 (map content (chunk_text cfg uu pages None None)) ''auto''
          = (Inr embeddings, g1)"
    by (rule generate_embeddings_again)
  with n store_embeddings_in_database_again [OF s] show ?thesis
    by (simp add: ingest_def Let_def)
qed

lemma cats_sentences:
  "split_into_sentences ''Cats are mammals. Dogs are mammals too.''
     = [''Cats are mammals'', ''Dogs are mammals too'']"
proof -
  have r: "re_split ''Cats are mammals. Dogs are mammals too.''
      = [''Cats are mammals'', '' Dogs are mammals too'', []]"
    by (simp add: is_delim_def)
  show ?thesis
    unfolding split_into_sentences_def r by (simp add: strip_def is_space_def)
qed

lemma cats_chunks:
  "chunk_text default_settings uu [cats_page] None None
     = [\<lparr>chunk_id = ''chunk_0_'' @ uu 0, chunk_index = 0,
         content = ''Cats are mammals Dogs are mammals too'', page_number = 1,
         sentence_count = 2\<rparr>]"
proof -
  have s: "strip ''Cats are mammals Dogs are mammals too'' = ''Cats are mammals Dogs are mammals too''"
    by (simp add: strip_def is_space_def)
  have z: "show_nat 0 = ''0''"
    by code_simp
  have p: "chunk_text default_settings uu [cats_page] None None
      = fst (chunk_page (chunk_data uu) 1000 100 ([], 0) cats_page)"
    by (simp add: chunk_text_def chunk_pages_def default_settings_def)
  show ?thesis
    unfolding p
    unfolding chunk_page_def cats_page_def Let_def fst_conv snd_conv cats_sentences
    by (simp add: chunk_step_def Let_def add_sentence_def save_if_content_def save_chunk_def
        chunk_data_def s z)
qed

lemma cats_embeddings:
  "generate_embeddings unit_lib no_globals [''Cats are mammals Dogs are mammals too''] ''auto''
     = (Inr [[1]], fitted_globals)"
  "generate_embeddings unit_lib fitted_globals [''Cats are mammals Dogs are mammals too''] ''auto''
     = (Inr [[1]], fitted_globals)"
  by (simp_all add: generate_embeddings_def generate_tfidf_embeddings_def transform_or_refit_def
      vectorizer_transform_def unit_lib_def no_globals_def fitted_globals_def Let_def)

lemma cats_first_run:
  "ingest default_settings unit_lib fixed_uuid no_globals (Inr []) ''doc-1'' [cats_page]
     = (Inr [stored_first], fitted_globals)"
  by (simp add: ingest_def Let_def cats_chunks cats_embeddings store_embeddings_in_database_def
      upsert_row_def fixed_uuid_def stored_first_def)

text \<open>
  Claim C1, as stated: a second ingestion of the same document leaves the stored chunk set
  as the first made it and only replaces records. The identifier of a chunk ends in eight
  hexadecimal digits of a fresh \<open>uuid4\<close>, so the second run draws other identifiers; its
  records meet no conflict and are inserted beside those of the first run.
\<close>

theorem reingest_inserts_new_records:
  "ingest default_settings unit_lib fixed_uuid no_globals (Inr []) ''doc-1'' [cats_page]
     = (Inr [stored_first], fitted_globals)
   \<and> ingest default_settings unit_lib other_uuid fitted_globals (Inr [stored_first]) ''doc-1''
       [cats_page]
     = (Inr [stored_first, stored_second], fitted_globals)"
  by (simp add: cats_first_run)
    (simp add: ingest_def Let_def cats_chunks cats_embeddings store_embeddings_in_database_def
      upsert_row_def other_uuid_def stored_first_def stored_second_def)

text \<open>
  Claim C1, amended: a second ingestion of the same \<open>(document_id, pages)\<close> under the same
  configuration produces chunks that agree with those of the first run in everything but
  the random part of the identifier (same index, content, page and sentence count), and
  the same vectors. When the second run draws the same identifiers as the first, the
  stored chunk set after it is identical to the one after the first run, and only existing
  records were replaced.
\<close>

theorem reingest_same_identifiers_replaces_in_place:
  assumes "ingest cfg lib uuid_hex8 g (Inr table) document_id pages = (Inr table1, g1)"
  shows "ingest cfg lib uuid_hex8 g1 (Inr table1) document_id pages = (Inr table1, g1)
       \<and> map (\<lambda>c. c\<lparr>chunk_id := []\<rparr>) (chunk_text cfg uuid_hex8' pages None None)
           = map (\<lambda>c. c\<lparr>chunk_id := []\<rparr>) (chunk_text cfg uuid_hex8 pages None None)
       \<and> fst (generate_embeddings lib g1
                (map content (chunk_text cfg uuid_hex8' pages None None)) ''auto'')
           = fst (generate_embeddings lib g
                (map content (chunk_text cfg uuid_hex8 pages None None)) ''auto'')"
proof -
  from ingest_stored [OF assms] obtain embeddings where
    e: "generate_embeddings lib g (map content (chunk_text cfg uuid_hex8 pages None None)) ''auto''
          = (Inr embeddings, g1)"
    by blast
  have c: "map content (chunk_text cfg uuid_hex8' pages None None)
      = map content (chunk_text cfg uuid_hex8 pages None None)"
    by (rule chunk_text_contents)
  have "map without_id (chunk_text cfg uuid_hex8' pages None None)
      = map without_id (chunk_text cfg uuid_hex8 pages None None)"
    by (rule chunk_text_without_id)
  then have w: "map (\<lambda>c. c\<lparr>chunk_id := []\<rparr>) (chunk_text cfg uuid_hex8' pages None None)
           = map (\<lambda>c. c\<lparr>chunk_id := []\<rparr>) (chunk_text cfg uuid_hex8 pages None None)"
    by (simp add: without_id_def [abs_def])
  from generate_embeddings_again [OF e] e c ingest_again [OF assms] w
  show ?thesis by simp
qed

theorem reingest_same_identifiers_replaces_in_place_witness:
  "ingest default_settings unit_lib fixed_uuid no_globals (Inr []) ''doc-1'' [cats_page]
     = (Inr [stored_first], fitted_globals)
   \<and> ingest default_settings unit_lib fixed_uuid fitted_globals (Inr [stored_first]) ''doc-1''
       [cats_page]
     = (Inr [stored_first], fitted_globals)"
  using reingest_same_identifiers_replaces_in_place [OF cats_first_run] cats_first_run
  by simp

end
